theory Spec2Isabelle
  imports Main "HOL-Library.Char_ord" "HOL-Library.Word"
begin

unbundle bit_operations_syntax

section \<open>Bytes, strings and the string helpers of the Go library\<close>

text \<open>
  A Go \<open>string\<close> and a Go \<open>[]byte\<close> are both sequences of 8-bit bytes, and the
  conversions \<open>string(b)\<close> and \<open>[]byte(s)\<close> keep the bytes as they are. Both are
  modelled as lists of \<^typ>\<open>char\<close>, the 8-bit character type; \<open>len\<close> is
  \<^const>\<open>length\<close> and counts bytes, as in Go.
\<close>

type_synonym byte = char
type_synonym bytes = "char list"

definition slash :: char where
  "slash = CHR ''/''"

text \<open>\<open>strings.Trim(s, "/")\<close>: all leading and all trailing slashes are removed.\<close>

definition trimSlash :: "string \<Rightarrow> string" where
  "trimSlash s = rev (dropWhile (\<lambda>c. c = slash) (rev (dropWhile (\<lambda>c. c = slash) s)))"

text \<open>
  \<open>strings.Split(s, "/")\<close>: the pieces between the slashes, in order. The result is
  never empty: splitting the empty string gives one empty piece.
\<close>

fun splitSlash :: "string \<Rightarrow> string list" where
  "splitSlash [] = [[]]"
| "splitSlash (c # cs) =
     (if c = slash then [] # splitSlash cs
      else (case splitSlash cs of
              [] \<Rightarrow> [[c]]
            | p # ps \<Rightarrow> (c # p) # ps))"

text \<open>\<open>strings.Join(parts, "/")\<close>.\<close>

fun joinSlash :: "string list \<Rightarrow> string" where
  "joinSlash [] = []"
| "joinSlash [p] = p"
| "joinSlash (p # q # ps) = p @ slash # joinSlash (q # ps)"

section \<open>The store\<close>

text \<open>
  A bbolt bucket maps a key to a value or to a nested bucket; iteration
  (\<open>ForEach\<close>) yields the entries in the store's order, with a nil value for a nested
  bucket. A bucket is the list of its entries in iteration order. The root of a
  transaction is a bucket as well (its entries are the top-level buckets).
\<close>

datatype entry = KV bytes | Sub "(string \<times> entry) list"

type_synonym bucket = "(string \<times> entry) list"

text \<open>
  \<open>b.Bucket(name)\<close> and \<open>tx.Bucket(name)\<close>: the nested bucket stored under the
  name, nil (\<open>None\<close>) when the key is absent or holds a plain value.
\<close>

definition Bucket_of :: "bucket \<Rightarrow> string \<Rightarrow> bucket option" where
  "Bucket_of b name =
     (case map_of b name of
        Some (Sub c) \<Rightarrow> Some c
      | _ \<Rightarrow> None)"

text \<open>\<open>b.Get(key)\<close>: the value under the key, nil for an absent key or a nested bucket.\<close>

definition Get :: "bucket \<Rightarrow> string \<Rightarrow> bytes option" where
  "Get b key =
     (case map_of b key of
        Some (KV v) \<Rightarrow> Some v
      | _ \<Rightarrow> None)"

section \<open>findBucket\<close>

text \<open>
  The inner loop of \<open>findBucket\<close>:
  \<^verbatim>\<open>for j := len(parts); j > i+1; j-- { candidate := strings.Join(parts[i:j], "/") ... }\<close>
  It returns the first candidate bucket that exists, with the \<open>j\<close> it was found at.
\<close>

function mergeLoop :: "string list \<Rightarrow> bucket \<Rightarrow> nat \<Rightarrow> nat \<Rightarrow> (bucket \<times> nat) option" where
  "mergeLoop parts bucket i j =
     (if j > i + 1 then
        (case Bucket_of bucket (joinSlash (take (j - i) (drop i parts))) of
           Some cand \<Rightarrow> Some (cand, j)
         | None \<Rightarrow> mergeLoop parts bucket i (j - 1))
      else None)"
  by pat_completeness auto
termination
  by (relation "measure (\<lambda>(parts, bucket, i, j). j)") auto

declare mergeLoop.simps [simp del]

lemma mergeLoop_bounds:
  "mergeLoop parts bucket i j = Some (cand, j') \<Longrightarrow> i + 1 < j' \<and> j' \<le> j"
proof (induction parts bucket i j rule: mergeLoop.induct)
  case (1 parts bucket i j)
  show ?case
  proof (cases "Bucket_of bucket (joinSlash (take (j - i) (drop i parts)))")
    case None
    with "1.prems" have gt: "j > i + 1" and rec: "mergeLoop parts bucket i (j - 1) = Some (cand, j')"
      by (simp_all add: mergeLoop.simps [of parts bucket i j] split: if_splits)
    from "1.IH" [OF gt None rec] show ?thesis by arith
  next
    case (Some c)
    with "1.prems" show ?thesis
      by (simp add: mergeLoop.simps [of parts bucket i j] split: if_splits)
  qed
qed

text \<open>
  The outer loop \<open>for i := 1; i < len(parts); i++\<close>, with the current bucket and
  \<open>i\<close> as its state. After a merge found at \<open>j\<close> the source sets \<open>i = j - 1\<close> and
  continues, so the next iteration runs at \<open>j\<close>.
\<close>

function findLoop :: "string list \<Rightarrow> bucket \<Rightarrow> nat \<Rightarrow> bucket option" where
  "findLoop parts bucket i =
     (if i < length parts then
        (case Bucket_of bucket (parts ! i) of
           Some next \<Rightarrow> findLoop parts next (i + 1)
         | None \<Rightarrow>
             (case Bucket_of bucket (joinSlash (drop i parts)) of
                Some try_b \<Rightarrow> Some try_b
              | None \<Rightarrow>
                  (case mergeLoop parts bucket i (length parts) of
                     Some (cand, j) \<Rightarrow> findLoop parts cand ((j - 1) + 1)
                   | None \<Rightarrow> None)))
      else Some bucket)"
  by pat_completeness auto
termination
  by (relation "measure (\<lambda>(parts, bucket, i). length parts - i)")
     (auto dest!: sym [of "Some _" "mergeLoop _ _ _ _"] mergeLoop_bounds)

declare findLoop.simps [simp del]

definition findBucket :: "bucket \<Rightarrow> string \<Rightarrow> bucket option" where
  "findBucket tx path0 =
     (let path = trimSlash path0 in
      if path = [] then None
      else
        let partsRaw = splitSlash path;
            parts = filter (\<lambda>p. p \<noteq> []) partsRaw
        in if length parts = 0 then None
           else (case Bucket_of tx (parts ! 0) of
                   None \<Rightarrow> None
                 | Some bucket \<Rightarrow> findLoop parts bucket 1))"


text \<open>
  The segments \<open>findBucket\<close> works on: the non-empty pieces of the path between
  slashes (the \<open>parts\<close> slice of the source, computed without the trim).
\<close>

definition segments :: "string \<Rightarrow> string list" where
  "segments path = filter (\<lambda>p. p \<noteq> []) (splitSlash path)"


text \<open>
  Following a list of bucket names down from a bucket, each name looked up exactly:
  the bucket that a fully segmented path denotes.
\<close>

fun descend :: "bucket \<Rightarrow> string list \<Rightarrow> bucket option" where
  "descend b [] = Some b"
| "descend b (n # ns) =
     (case Bucket_of b n of
        None \<Rightarrow> None
      | Some c \<Rightarrow> descend c ns)"


section \<open>The Go library: \<open>unicode/utf8\<close> and \<open>encoding/json\<close>\<close>

text \<open>
  \<open>isUTF8\<close> and \<open>parseKeyValue\<close> call \<open>utf8.ValidString\<close>, \<open>json.Unmarshal\<close>
  and \<open>json.MarshalIndent\<close> of the Go standard library. The first two are modelled
  here as far as the classification depends on them: which byte strings are valid
  UTF-8, and for which byte strings \<open>json.Unmarshal(value, &jsonValue)\<close> into an
  empty interface returns a nil error.
\<close>

subsection \<open>\<open>utf8.ValidString\<close>\<close>

text \<open>
  A string is valid UTF-8 when it is a sequence of well-formed encodings: ASCII bytes;
  two-byte forms \<open>C2..DF\<close>; three-byte forms, with \<open>E0\<close> followed by \<open>A0..BF\<close> (no
  overlong form) and \<open>ED\<close> by \<open>80..9F\<close> (no surrogate); four-byte forms, with \<open>F0\<close>
  followed by \<open>90..BF\<close> and \<open>F4\<close> by \<open>80..8F\<close> (nothing above U+10FFFF).
\<close>

definition inRange :: "byte \<Rightarrow> nat \<Rightarrow> nat \<Rightarrow> bool" where
  "inRange c lo hi = (lo \<le> of_char c \<and> of_char c \<le> hi)"

definition contByte :: "byte \<Rightarrow> bool" where
  "contByte c = inRange c 0x80 0xBF"

fun ValidString :: "bytes \<Rightarrow> bool" where
  "ValidString [] = True"
| "ValidString (a # rest) =
     (if of_char a < (0x80 :: nat) then ValidString rest
      else if inRange a 0xC2 0xDF then
        (case rest of
           b # rest' \<Rightarrow> contByte b \<and> ValidString rest'
         | _ \<Rightarrow> False)
      else if inRange a 0xE0 0xEF then
        (case rest of
           b # c # rest' \<Rightarrow>
             (if of_char a = (0xE0 :: nat) then inRange b 0xA0 0xBF
              else if of_char a = (0xED :: nat) then inRange b 0x80 0x9F
              else contByte b)
             \<and> contByte c \<and> ValidString rest'
         | _ \<Rightarrow> False)
      else if inRange a 0xF0 0xF4 then
        (case rest of
           b # c # d # rest' \<Rightarrow>
             (if of_char a = (0xF0 :: nat) then inRange b 0x90 0xBF
              else if of_char a = (0xF4 :: nat) then inRange b 0x80 0x8F
              else contByte b)
             \<and> contByte c \<and> contByte d \<and> ValidString rest'
         | _ \<Rightarrow> False)
      else False)"

subsection \<open>The scanner of \<open>encoding/json\<close>\<close>

text \<open>
  \<open>json.Unmarshal\<close> first runs \<open>checkValid\<close>: a scanner, a state machine with a stack
  of open objects and arrays, is stepped over every byte. The scanner's \<open>step\<close> field
  is one of the state functions below; \<open>parseState\<close> is the stack, kept here with its
  top at the head of the list. A step that reports \<open>scanError\<close> is \<open>None\<close>: the
  error state is never left. (After a complete top-level value a non-space byte makes
  \<open>stateEndTop\<close> record the error and the next step or \<open>eof\<close> report it; that is
  \<open>None\<close> at that byte here.) The field \<open>endTop\<close> is set exactly where \<open>step\<close>
  becomes \<open>stateEndTop\<close>, and is read off \<open>step\<close>.
\<close>

datatype stepFn =
    BeginValueOrEmpty | BeginValue | BeginStringOrEmpty | BeginString
  | EndValue | EndTop
  | InString | InStringEsc | InStringEscU | InStringEscU1 | InStringEscU12 | InStringEscU123
  | Neg | Num1 | Num0 | Dot | Dot0 | ExpE | ESign | E0
  | LitT | LitTr | LitTru | LitF | LitFa | LitFal | LitFals | LitN | LitNu | LitNul

datatype parseStateT = parseObjectKey | parseObjectValue | parseArrayValue

record scanner =
  step :: stepFn
  parseState :: "parseStateT list"

definition maxNestingDepth :: nat where
  "maxNestingDepth = 10000"

definition reset :: scanner where
  "reset = \<lparr>step = BeginValue, parseState = []\<rparr>"

definition isSpace :: "byte \<Rightarrow> bool" where
  "isSpace c = (c \<le> CHR '' '' \<and> (c = CHR '' '' \<or> c = CHR 0x09 \<or> c = CHR 0x0D \<or> c = CHR 0x0A))"

definition isDigit :: "byte \<Rightarrow> bool" where
  "isDigit c = (CHR ''0'' \<le> c \<and> c \<le> CHR ''9'')"

definition isDigit19 :: "byte \<Rightarrow> bool" where
  "isDigit19 c = (CHR ''1'' \<le> c \<and> c \<le> CHR ''9'')"

definition isHex :: "byte \<Rightarrow> bool" where
  "isHex c = (CHR ''0'' \<le> c \<and> c \<le> CHR ''9'' \<or> CHR ''a'' \<le> c \<and> c \<le> CHR ''f''
              \<or> CHR ''A'' \<le> c \<and> c \<le> CHR ''F'')"

definition pushParseState :: "scanner \<Rightarrow> parseStateT \<Rightarrow> scanner option" where
  "pushParseState s newParseState =
     (let st = newParseState # parseState s
      in if length st \<le> maxNestingDepth then Some (s\<lparr>parseState := st\<rparr>) else None)"

text \<open>\<open>popParseState\<close> is only reached with a non-empty stack.\<close>

definition popParseState :: "scanner \<Rightarrow> scanner option" where
  "popParseState s =
     (case parseState s of
        [] \<Rightarrow> None
      | _ # st \<Rightarrow>
          (if length st = 0 then Some (s\<lparr>step := EndTop, parseState := st\<rparr>)
           else Some (s\<lparr>step := EndValue, parseState := st\<rparr>)))"

definition stateEndTop :: "scanner \<Rightarrow> byte \<Rightarrow> scanner option" where
  "stateEndTop s c = (if isSpace c then Some s else None)"

definition stateEndValue :: "scanner \<Rightarrow> byte \<Rightarrow> scanner option" where
  "stateEndValue s c =
     (case parseState s of
        [] \<Rightarrow> stateEndTop (s\<lparr>step := EndTop\<rparr>) c
      | ps # st \<Rightarrow>
          (if isSpace c then Some (s\<lparr>step := EndValue\<rparr>)
           else (case ps of
                   parseObjectKey \<Rightarrow>
                     (if c = CHR '':'' then
                        Some (s\<lparr>step := BeginValue, parseState := parseObjectValue # st\<rparr>)
                      else None)
                 | parseObjectValue \<Rightarrow>
                     (if c = CHR '','' then
                        Some (s\<lparr>step := BeginString, parseState := parseObjectKey # st\<rparr>)
                      else if c = CHR ''}'' then popParseState s
                      else None)
                 | parseArrayValue \<Rightarrow>
                     (if c = CHR '','' then Some (s\<lparr>step := BeginValue\<rparr>)
                      else if c = CHR '']'' then popParseState s
                      else None))))"

definition stateBeginValue :: "scanner \<Rightarrow> byte \<Rightarrow> scanner option" where
  "stateBeginValue s c =
     (if isSpace c then Some s
      else if c = CHR ''{'' then pushParseState (s\<lparr>step := BeginStringOrEmpty\<rparr>) parseObjectKey
      else if c = CHR ''['' then pushParseState (s\<lparr>step := BeginValueOrEmpty\<rparr>) parseArrayValue
      else if c = CHR 0x22 then Some (s\<lparr>step := InString\<rparr>)
      else if c = CHR ''-'' then Some (s\<lparr>step := Neg\<rparr>)
      else if c = CHR ''0'' then Some (s\<lparr>step := Num0\<rparr>)
      else if c = CHR ''t'' then Some (s\<lparr>step := LitT\<rparr>)
      else if c = CHR ''f'' then Some (s\<lparr>step := LitF\<rparr>)
      else if c = CHR ''n'' then Some (s\<lparr>step := LitN\<rparr>)
      else if isDigit19 c then Some (s\<lparr>step := Num1\<rparr>)
      else None)"

definition stateBeginValueOrEmpty :: "scanner \<Rightarrow> byte \<Rightarrow> scanner option" where
  "stateBeginValueOrEmpty s c =
     (if isSpace c then Some s
      else if c = CHR '']'' then stateEndValue s c
      else stateBeginValue s c)"

definition stateBeginString :: "scanner \<Rightarrow> byte \<Rightarrow> scanner option" where
  "stateBeginString s c =
     (if isSpace c then Some s
      else if c = CHR 0x22 then Some (s\<lparr>step := InString\<rparr>)
      else None)"

text \<open>
  In \<open>stateBeginStringOrEmpty\<close> the stack is not empty: the state is entered by
  pushing \<open>parseObjectKey\<close>.
\<close>

definition stateBeginStringOrEmpty :: "scanner \<Rightarrow> byte \<Rightarrow> scanner option" where
  "stateBeginStringOrEmpty s c =
     (if isSpace c then Some s
      else if c = CHR ''}'' then
        (case parseState s of
           [] \<Rightarrow> None
         | _ # st \<Rightarrow> stateEndValue (s\<lparr>parseState := parseObjectValue # st\<rparr>) c)
      else stateBeginString s c)"

definition stateInString :: "scanner \<Rightarrow> byte \<Rightarrow> scanner option" where
  "stateInString s c =
     (if c = CHR 0x22 then Some (s\<lparr>step := EndValue\<rparr>)
      else if c = CHR 0x5C then Some (s\<lparr>step := InStringEsc\<rparr>)
      else if c < CHR 0x20 then None
      else Some s)"

definition stateInStringEsc :: "scanner \<Rightarrow> byte \<Rightarrow> scanner option" where
  "stateInStringEsc s c =
     (if c = CHR ''b'' \<or> c = CHR ''f'' \<or> c = CHR ''n'' \<or> c = CHR ''r'' \<or> c = CHR ''t''
         \<or> c = CHR 0x5C \<or> c = CHR ''/'' \<or> c = CHR 0x22
      then Some (s\<lparr>step := InString\<rparr>)
      else if c = CHR ''u'' then Some (s\<lparr>step := InStringEscU\<rparr>)
      else None)"

definition stateHex :: "stepFn \<Rightarrow> scanner \<Rightarrow> byte \<Rightarrow> scanner option" where
  "stateHex nxt s c = (if isHex c then Some (s\<lparr>step := nxt\<rparr>) else None)"

definition state0 :: "scanner \<Rightarrow> byte \<Rightarrow> scanner option" where
  "state0 s c =
     (if c = CHR ''.'' then Some (s\<lparr>step := Dot\<rparr>)
      else if c = CHR ''e'' \<or> c = CHR ''E'' then Some (s\<lparr>step := ExpE\<rparr>)
      else stateEndValue s c)"

definition state1 :: "scanner \<Rightarrow> byte \<Rightarrow> scanner option" where
  "state1 s c = (if isDigit c then Some (s\<lparr>step := Num1\<rparr>) else state0 s c)"

definition stateNeg :: "scanner \<Rightarrow> byte \<Rightarrow> scanner option" where
  "stateNeg s c =
     (if c = CHR ''0'' then Some (s\<lparr>step := Num0\<rparr>)
      else if isDigit19 c then Some (s\<lparr>step := Num1\<rparr>)
      else None)"

definition stateDot :: "scanner \<Rightarrow> byte \<Rightarrow> scanner option" where
  "stateDot s c = (if isDigit c then Some (s\<lparr>step := Dot0\<rparr>) else None)"

definition stateDot0 :: "scanner \<Rightarrow> byte \<Rightarrow> scanner option" where
  "stateDot0 s c =
     (if isDigit c then Some s
      else if c = CHR ''e'' \<or> c = CHR ''E'' then Some (s\<lparr>step := ExpE\<rparr>)
      else stateEndValue s c)"

definition stateESign :: "scanner \<Rightarrow> byte \<Rightarrow> scanner option" where
  "stateESign s c = (if isDigit c then Some (s\<lparr>step := E0\<rparr>) else None)"

definition stateE :: "scanner \<Rightarrow> byte \<Rightarrow> scanner option" where
  "stateE s c =
     (if c = CHR ''+'' \<or> c = CHR ''-'' then Some (s\<lparr>step := ESign\<rparr>)
      else stateESign s c)"

definition stateE0 :: "scanner \<Rightarrow> byte \<Rightarrow> scanner option" where
  "stateE0 s c = (if isDigit c then Some s else stateEndValue s c)"

text \<open>The states inside \<open>true\<close>, \<open>false\<close> and \<open>null\<close> expect one letter each.\<close>

definition stateLetter :: "char \<Rightarrow> stepFn \<Rightarrow> scanner \<Rightarrow> byte \<Rightarrow> scanner option" where
  "stateLetter l nxt s c = (if c = l then Some (s\<lparr>step := nxt\<rparr>) else None)"

text \<open>\<open>s.step(s, c)\<close>: the call through the function stored in the scanner.\<close>

definition scanStep :: "scanner \<Rightarrow> byte \<Rightarrow> scanner option" where
  "scanStep s c =
     (case step s of
        BeginValueOrEmpty \<Rightarrow> stateBeginValueOrEmpty s c
      | BeginValue \<Rightarrow> stateBeginValue s c
      | BeginStringOrEmpty \<Rightarrow> stateBeginStringOrEmpty s c
      | BeginString \<Rightarrow> stateBeginString s c
      | EndValue \<Rightarrow> stateEndValue s c
      | EndTop \<Rightarrow> stateEndTop s c
      | InString \<Rightarrow> stateInString s c
      | InStringEsc \<Rightarrow> stateInStringEsc s c
      | InStringEscU \<Rightarrow> stateHex InStringEscU1 s c
      | InStringEscU1 \<Rightarrow> stateHex InStringEscU12 s c
      | InStringEscU12 \<Rightarrow> stateHex InStringEscU123 s c
      | InStringEscU123 \<Rightarrow> stateHex InString s c
      | Neg \<Rightarrow> stateNeg s c
      | Num1 \<Rightarrow> state1 s c
      | Num0 \<Rightarrow> state0 s c
      | Dot \<Rightarrow> stateDot s c
      | Dot0 \<Rightarrow> stateDot0 s c
      | ExpE \<Rightarrow> stateE s c
      | ESign \<Rightarrow> stateESign s c
      | E0 \<Rightarrow> stateE0 s c
      | LitT \<Rightarrow> stateLetter CHR ''r'' LitTr s c
      | LitTr \<Rightarrow> stateLetter CHR ''u'' LitTru s c
      | LitTru \<Rightarrow> stateLetter CHR ''e'' EndValue s c
      | LitF \<Rightarrow> stateLetter CHR ''a'' LitFa s c
      | LitFa \<Rightarrow> stateLetter CHR ''l'' LitFal s c
      | LitFal \<Rightarrow> stateLetter CHR ''s'' LitFals s c
      | LitFals \<Rightarrow> stateLetter CHR ''e'' EndValue s c
      | LitN \<Rightarrow> stateLetter CHR ''u'' LitNu s c
      | LitNu \<Rightarrow> stateLetter CHR ''l'' LitNul s c
      | LitNul \<Rightarrow> stateLetter CHR ''l'' EndValue s c)"

text \<open>The loop of \<open>checkValid\<close> over the bytes, stopping at the first error.\<close>

fun scanBytes :: "scanner \<Rightarrow> bytes \<Rightarrow> scanner option" where
  "scanBytes s [] = Some s"
| "scanBytes s (c # cs) =
     (case scanStep s c of
        None \<Rightarrow> None
      | Some s' \<Rightarrow> scanBytes s' cs)"

text \<open>
  \<open>eof\<close>: the input is complete when the top-level value has ended, if need be after
  one more step on a space (which ends a number).
\<close>

definition eof :: "scanner \<Rightarrow> bool" where
  "eof s =
     (if step s = EndTop then True
      else (case scanStep s CHR '' '' of
              None \<Rightarrow> False
            | Some s' \<Rightarrow> step s' = EndTop))"

definition checkValid :: "bytes \<Rightarrow> bool" where
  "checkValid data =
     (case scanBytes reset data of
        None \<Rightarrow> False
      | Some s \<Rightarrow> eof s)"

subsection \<open>The decoder of \<open>encoding/json\<close>, into an empty interface\<close>

text \<open>
  After \<open>checkValid\<close> the decoder walks the document. Into an \<open>interface{}\<close> every
  valid document decodes, except that each number literal goes through
  \<open>strconv.ParseFloat(s, 64)\<close>, whose range error (the value rounds to an infinity)
  becomes the error of \<open>Unmarshal\<close>. String literals with invalid UTF-8 are accepted
  (the bad bytes are replaced by U+FFFD).

  \<open>numberLits\<close> collects the number literals as the decoder delimits them: outside
  a string, from a digit or a minus sign, over the bytes \<open>0-9 . e E + -\<close>.
\<close>

datatype litMode = Outside | InStr | InStrEsc | InNum bytes

definition numberByte :: "byte \<Rightarrow> bool" where
  "numberByte c = (isDigit c \<or> c = CHR ''.'' \<or> c = CHR ''e'' \<or> c = CHR ''E''
                   \<or> c = CHR ''+'' \<or> c = CHR ''-'')"

fun numberLits :: "litMode \<Rightarrow> bytes \<Rightarrow> bytes list" where
  "numberLits Outside [] = []"
| "numberLits InStr [] = []"
| "numberLits InStrEsc [] = []"
| "numberLits (InNum acc) [] = [acc]"
| "numberLits Outside (c # cs) =
     (if c = CHR 0x22 then numberLits InStr cs
      else if c = CHR ''-'' \<or> isDigit c then numberLits (InNum [c]) cs
      else numberLits Outside cs)"
| "numberLits InStr (c # cs) =
     (if c = CHR 0x22 then numberLits Outside cs
      else if c = CHR 0x5C then numberLits InStrEsc cs
      else numberLits InStr cs)"
| "numberLits InStrEsc (c # cs) = numberLits InStr cs"
| "numberLits (InNum acc) (c # cs) =
     (if numberByte c then numberLits (InNum (acc @ [c])) cs
      else acc # numberLits (if c = CHR 0x22 then InStr else Outside) cs)"

text \<open>
  The decimal value of a literal \<open>[-]digits[.digits][(e|E)[+|-]digits]\<close> as
  \<open>strconv\<close> reads it: the digits of the integer and fraction parts as one natural
  number, the count of fraction digits, and the exponent, which is accumulated only
  while it is below 10000.
\<close>

definition digitVal :: "byte \<Rightarrow> nat" where
  "digitVal c = of_char c - of_char CHR ''0''"

definition mantissaOf :: "bytes \<Rightarrow> nat" where
  "mantissaOf ds = foldl (\<lambda>n c. n * 10 + digitVal c) 0 ds"

definition exponentOf :: "bytes \<Rightarrow> nat" where
  "exponentOf ds = foldl (\<lambda>e c. if e < 10000 then e * 10 + digitVal c else e) 0 ds"

definition decimalExponent :: "bytes \<Rightarrow> int" where
  "decimalExponent r =
     (case r of
        [] \<Rightarrow> 0
      | x # t \<Rightarrow>
          (if x = CHR ''e'' \<or> x = CHR ''E'' then
             (case t of
                [] \<Rightarrow> 0
              | sg # u \<Rightarrow>
                  (if sg = CHR ''+'' then int (exponentOf (takeWhile isDigit u))
                   else if sg = CHR ''-'' then - int (exponentOf (takeWhile isDigit u))
                   else int (exponentOf (takeWhile isDigit t))))
           else 0))"

text \<open>
  \<open>ParseFloat(s, 64)\<close> rounds to nearest, ties to even, and reports a range error
  when the result is infinite: when the magnitude is at least
  \<open>2^1024 - 2^970\<close>, half a unit in the last place above the largest finite value.
\<close>

definition float64Limit :: nat where
  "float64Limit = 2 ^ 1024 - 2 ^ 970"

definition floatInRange :: "bytes \<Rightarrow> bool" where
  "floatInRange lit =
     (let s1 = (case lit of [] \<Rightarrow> [] | x # t \<Rightarrow> if x = CHR ''-'' then t else lit);
          ip = takeWhile isDigit s1;
          r1 = dropWhile isDigit s1;
          frac = (case r1 of [] \<Rightarrow> [] | x # t \<Rightarrow> if x = CHR ''.'' then takeWhile isDigit t else []);
          r2 = (case r1 of [] \<Rightarrow> [] | x # t \<Rightarrow> if x = CHR ''.'' then dropWhile isDigit t else r1);
          mant = mantissaOf (ip @ frac);
          e10 = decimalExponent r2 - int (length frac)
      in if 0 \<le> e10 then mant * 10 ^ nat e10 < float64Limit
         else mant < float64Limit * 10 ^ nat (- e10))"

text \<open>
  The decoded document is not taken apart by the viewer: it is stored in the
  \<open>Value\<close> field and handed to \<open>json.MarshalIndent\<close>. It is represented by the
  document it was decoded from.
\<close>

datatype jsonValue = Decoded bytes

definition json_Unmarshal :: "bytes \<Rightarrow> jsonValue option" where
  "json_Unmarshal data =
     (if checkValid data \<and> list_all floatInRange (numberLits Outside data)
      then Some (Decoded data) else None)"

section \<open>Formatting verbs of \<open>fmt.Sprintf\<close>\<close>

definition digitChar :: "nat \<Rightarrow> char" where
  "digitChar d = ''0123456789abcdef'' ! (d mod 16)"

function natDigits :: "nat \<Rightarrow> nat \<Rightarrow> string" where
  "natDigits base n =
     (if base < 2 \<or> n < base then [digitChar n]
      else natDigits base (n div base) @ [digitChar (n mod base)])"
  by pat_completeness auto
termination
  by (relation "measure (\<lambda>(base, n). n)") auto

declare natDigits.simps [simp del]

definition padLeft :: "nat \<Rightarrow> char \<Rightarrow> string \<Rightarrow> string" where
  "padLeft width c s = replicate (width - length s) c @ s"

text \<open>\<open>%d\<close>, \<open>%02x\<close> and \<open>%04x\<close>, for the non-negative values they are used with.\<close>

definition fmt_d :: "nat \<Rightarrow> string" where
  "fmt_d n = natDigits 10 n"

definition fmt_02x :: "byte \<Rightarrow> string" where
  "fmt_02x b = padLeft 2 CHR ''0'' (natDigits 16 (of_char b))"

definition fmt_04x :: "nat \<Rightarrow> string" where
  "fmt_04x n = padLeft 4 CHR ''0'' (natDigits 16 n)"

section \<open>The hex dump\<close>

text \<open>
  The inner loop over the bytes of one line,
  \<^verbatim>\<open>for j := i; j < end; j++ { hex += fmt.Sprintf("%02x ", data[j]); ... }\<close>
  with \<open>j < end \<le> len(data)\<close> at every read.
\<close>

function byteLoop :: "bytes \<Rightarrow> nat \<Rightarrow> nat \<Rightarrow> string \<times> string \<Rightarrow> string \<times> string" where
  "byteLoop data j end (hex, ascii) =
     (if j < end then
        byteLoop data (j + 1) end
          (hex @ fmt_02x (data ! j) @ '' '',
           ascii @ (if 32 \<le> (of_char (data ! j) :: nat) \<and> (of_char (data ! j) :: nat) \<le> 126
                    then [data ! j] else ''.''))
      else (hex, ascii))"
  by pat_completeness auto
termination
  by (relation "measure (\<lambda>(data, j, end, acc). end - j)") auto

declare byteLoop.simps [simp del]

text \<open>\<^verbatim>\<open>for len(hex) < 48 { hex += " " }\<close>\<close>

function padLoop :: "string \<Rightarrow> string" where
  "padLoop hex = (if length hex < 48 then padLoop (hex @ '' '') else hex)"
  by pat_completeness auto
termination
  by (relation "measure (\<lambda>hex. 48 - length hex)") auto

declare padLoop.simps [simp del]

text \<open>
  The outer loop \<^verbatim>\<open>for i := 0; i < maxBytes; i += 16\<close>, which appends one record
  \<^verbatim>\<open>fmt.Sprintf("%04x: %s |%s|\n", i, hex, ascii)\<close> per round. The same loop text
  occurs in \<open>formatBinaryPreview\<close> and, with \<open>len(value)\<close> as the bound, in
  \<open>getFullKeyData\<close>.
\<close>

function lineLoop :: "bytes \<Rightarrow> nat \<Rightarrow> nat \<Rightarrow> string \<Rightarrow> string" where
  "lineLoop data maxBytes i preview =
     (if i < maxBytes then
        (let end = (if i + 16 > maxBytes then maxBytes else i + 16);
             (hex, ascii) = byteLoop data i end ([], []);
             hex = padLoop hex
         in lineLoop data maxBytes (i + 16)
              (preview @ fmt_04x i @ '': '' @ hex @ '' |'' @ ascii @ ''|'' @ [CHR 0x0A]))
      else preview)"
  by pat_completeness auto
termination
  by (relation "measure (\<lambda>(data, maxBytes, i, preview). maxBytes - i)") auto

declare lineLoop.simps [simp del]

definition hexHeader :: string where
  "hexHeader = ''Hexadecimal preview:'' @ [CHR 0x0A]"

definition formatBinaryPreview :: "bytes \<Rightarrow> string" where
  "formatBinaryPreview data =
     (if length data = 0 then ''(empty data)''
      else
        let preview = hexHeader;
            maxBytes = (if length data < 256 then length data else 256);
            preview = lineLoop data maxBytes 0 preview
        in if length data > maxBytes
           then preview @ ''... '' @ fmt_d (length data - maxBytes) @ '' more bytes''
           else preview)"

text \<open>
  The binary branch of \<open>getFullKeyData\<close> builds its preview in place, without the
  cap, the empty-input marker and the trailing line.
\<close>

definition fullHexPreview :: "bytes \<Rightarrow> string" where
  "fullHexPreview value = lineLoop value (length value) 0 hexHeader"

text \<open>
  A record of the dump as section 4.3 of the specification describes it: the offset in
  four hex digits, the bytes in hex, padding to 48 columns, and the ASCII column, in
  which a byte outside \<open>0x20..0x7E\<close> shows as a dot.
\<close>

definition hexRecord :: "nat \<Rightarrow> bytes \<Rightarrow> string" where
  "hexRecord off bs =
     fmt_04x off @ '': '' @ concat (map (\<lambda>b. fmt_02x b @ '' '') bs)
       @ replicate (48 - 3 * length bs) CHR '' '' @ '' |''
       @ map (\<lambda>b. if 32 \<le> (of_char b :: nat) \<and> (of_char b :: nat) \<le> 126 then b else CHR ''.'') bs
       @ ''|'' @ [CHR 0x0A]"

section \<open>Classification of a value\<close>

text \<open>
  \<open>isUTF8\<close>: not empty, at most 1 MiB, no NUL byte, and valid UTF-8.
\<close>

fun containsNul :: "bytes \<Rightarrow> bool" where
  "containsNul [] = False"
| "containsNul (b # bs) = (if b = CHR 0x00 then True else containsNul bs)"

definition isUTF8 :: "bytes \<Rightarrow> bool" where
  "isUTF8 data =
     (if length data = 0 \<or> length data > 1024 * 1024 then False
      else if containsNul data then False
      else ValidString data)"

text \<open>
  The \<open>Value\<close> field has type \<open>interface{}\<close>; the viewer stores a decoded document or
  a string in it.
\<close>

datatype goValue = Nil | Str string | Json jsonValue

record KeyValuePair =
  Key :: string
  Value :: goValue
  ValueType :: string
  ValueSize :: nat
  IsJSON :: bool
  IsBinary :: bool
  Preview :: string

definition truncatedMark :: string where
  "truncatedMark = CHR 0x0A # ''... (truncated)''"

text \<open>
  \<open>parseKeyValue\<close>, the bounded classification. \<open>json.MarshalIndent(v, "", "  ")\<close> is
  the parameter \<open>marshalIndent\<close>, from a decoded document to its indented text or an
  error (\<open>None\<close>).
\<close>

definition parseKeyValue :: "(jsonValue \<Rightarrow> string option) \<Rightarrow> bytes \<Rightarrow> bytes \<Rightarrow> KeyValuePair" where
  "parseKeyValue marshalIndent key value =
     (let kv = \<lparr>Key = key, Value = Nil, ValueType = [], ValueSize = length value,
                IsJSON = False, IsBinary = (\<not> isUTF8 value), Preview = []\<rparr>
      in case json_Unmarshal value of
           Some jsonValue \<Rightarrow>
             (let kv = kv\<lparr>IsJSON := True, ValueType := ''JSON'', Value := Json jsonValue\<rparr>
              in case marshalIndent jsonValue of
                   Some formatted \<Rightarrow>
                     (let kv = kv\<lparr>Preview := formatted\<rparr>
                      in if length (Preview kv) > 1000
                         then kv\<lparr>Preview := take 1000 (Preview kv) @ truncatedMark\<rparr>
                         else kv)
                 | None \<Rightarrow> kv\<lparr>Preview := value\<rparr>)
         | None \<Rightarrow>
             (if IsBinary kv then
                kv\<lparr>ValueType := ''Binary'',
                   Value := Str (''<'' @ fmt_d (length value) @ '' bytes binary data>''),
                   Preview := formatBinaryPreview value\<rparr>
              else
                (let kv = kv\<lparr>ValueType := ''String'', Value := Str value, Preview := value\<rparr>
                 in if length (Preview kv) > 1000
                    then kv\<lparr>Preview := take 1000 (Preview kv) @ truncatedMark\<rparr>
                    else kv)))"

text \<open>
  \<open>getKeyDetails\<close> and \<open>getFullKeyData\<close>, on an opened read transaction: the bucket
  is resolved, the key is read, and the value is classified without truncation of the
  JSON and text previews. \<open>getFullKeyData\<close> also dumps binary data in full.
\<close>

datatype lookupError = BucketNotFound string | KeyNotFound string

definition getKeyDetails ::
    "(jsonValue \<Rightarrow> string option) \<Rightarrow> bucket \<Rightarrow> string \<Rightarrow> string \<Rightarrow> lookupError + KeyValuePair" where
  "getKeyDetails marshalIndent tx bucketPath keyName =
     (case findBucket tx bucketPath of
        None \<Rightarrow> Inl (BucketNotFound bucketPath)
      | Some bucket \<Rightarrow>
          (case Get bucket keyName of
             None \<Rightarrow> Inl (KeyNotFound keyName)
           | Some value \<Rightarrow>
               (let kv = \<lparr>Key = keyName, Value = Nil, ValueType = [], ValueSize = length value,
                          IsJSON = False, IsBinary = (\<not> isUTF8 value), Preview = []\<rparr>
                in case json_Unmarshal value of
                     Some jsonVal \<Rightarrow>
                       (let kv = kv\<lparr>IsJSON := True, ValueType := ''JSON'', Value := Json jsonVal\<rparr>
                        in case marshalIndent jsonVal of
                             Some formatted \<Rightarrow> Inr (kv\<lparr>Preview := formatted\<rparr>)
                           | None \<Rightarrow> Inr (kv\<lparr>Preview := value\<rparr>))
                   | None \<Rightarrow>
                       (if IsBinary kv then
                          Inr (kv\<lparr>ValueType := ''Binary'',
                                 Value := Str (''<'' @ fmt_d (length value) @ '' bytes binary data>''),
                                 Preview := formatBinaryPreview value\<rparr>)
                        else
                          Inr (kv\<lparr>ValueType := ''String'', Value := Str value,
                                 Preview := value\<rparr>)))))"

definition getFullKeyData ::
    "(jsonValue \<Rightarrow> string option) \<Rightarrow> bucket \<Rightarrow> string \<Rightarrow> string \<Rightarrow> lookupError + KeyValuePair" where
  "getFullKeyData marshalIndent tx bucketPath keyName =
     (case findBucket tx bucketPath of
        None \<Rightarrow> Inl (BucketNotFound bucketPath)
      | Some bucket \<Rightarrow>
          (case Get bucket keyName of
             None \<Rightarrow> Inl (KeyNotFound keyName)
           | Some value \<Rightarrow>
               (let kv = \<lparr>Key = keyName, Value = Nil, ValueType = [], ValueSize = length value,
                          IsJSON = False, IsBinary = (\<not> isUTF8 value), Preview = []\<rparr>
                in case json_Unmarshal value of
                     Some jsonVal \<Rightarrow>
                       (let kv = kv\<lparr>IsJSON := True, ValueType := ''JSON'', Value := Json jsonVal\<rparr>
                        in case marshalIndent jsonVal of
                             Some formatted \<Rightarrow> Inr (kv\<lparr>Preview := formatted\<rparr>)
                           | None \<Rightarrow> Inr (kv\<lparr>Preview := value\<rparr>))
                   | None \<Rightarrow>
                       (if IsBinary kv then
                          Inr (kv\<lparr>ValueType := ''Binary'',
                                 Value := Str (''<'' @ fmt_d (length value) @ '' bytes binary data>''),
                                 Preview := fullHexPreview value\<rparr>)
                        else
                          Inr (kv\<lparr>ValueType := ''String'', Value := Str value,
                                 Preview := value\<rparr>)))))"

text \<open>
  The characters of a UTF-8 text are its code points: the bytes that are not
  continuation bytes (\<open>utf8.RuneCountInString\<close> on valid UTF-8).
\<close>

definition charCount :: "string \<Rightarrow> nat" where
  "charCount s = length (filter (\<lambda>c. \<not> contByte c) s)"

text \<open>
  A JSON document of 1004 bytes: the string literal of 501 letters \<open>e\<close> with acute
  accent (U+00E9, the two bytes \<open>C3 A9\<close>) between its quotes. \<open>json.MarshalIndent\<close>
  writes the decoded string back as this same text.
\<close>

definition accentedDoc :: bytes where
  "accentedDoc = CHR 0x22 # concat (replicate 501 [CHR 0xC3, CHR 0xA9]) @ [CHR 0x22]"

section \<open>Search\<close>

text \<open>
  \<open>strings.ToLower\<close>: a string of ASCII bytes is lowered byte by byte; any other
  string goes through the Unicode case tables, the parameter \<open>unicodeLower\<close>.
\<close>

definition asciiLower :: "char \<Rightarrow> char" where
  "asciiLower c =
     (if CHR ''A'' \<le> c \<and> c \<le> CHR ''Z'' then char_of (of_char c + (32 :: nat)) else c)"

definition ToLower :: "(string \<Rightarrow> string) \<Rightarrow> string \<Rightarrow> string" where
  "ToLower unicodeLower s =
     (if list_all (\<lambda>c. c < CHR 0x80) s then map asciiLower s else unicodeLower s)"

text \<open>\<open>strings.Contains(s, substr)\<close>.\<close>

fun hasPrefix :: "string \<Rightarrow> string \<Rightarrow> bool" where
  "hasPrefix s [] = True"
| "hasPrefix [] (p # ps) = False"
| "hasPrefix (c # cs) (p # ps) = (c = p \<and> hasPrefix cs ps)"

fun Contains :: "string \<Rightarrow> string \<Rightarrow> bool" where
  "Contains [] substr = (substr = [])"
| "Contains (c # cs) substr = (if hasPrefix (c # cs) substr then True else Contains cs substr)"

text \<open>One entry of the result list (a map with these six keys in the source).\<close>

record SearchResult =
  r_bucket :: string
  r_key :: string
  r_path :: string
  r_type :: string
  r_size :: nat
  r_preview :: string

text \<open>
  \<open>searchInBucket\<close> checks the cap, then runs \<open>bucket.ForEach\<close> with a callback.
  \<open>forEachSearch\<close> is that iteration: the callback always returns nil, so every
  entry is visited. The results slice is shared through a pointer; here it is passed in
  and returned. For a nested bucket the callback calls \<open>searchInBucket\<close> on it; keys
  of a bucket are unique, so \<open>bucket.Bucket(k)\<close> is the bucket of the entry.
\<close>

function searchInBucket ::
    "(string \<Rightarrow> string) \<Rightarrow> (jsonValue \<Rightarrow> string option) \<Rightarrow> bucket \<Rightarrow> string \<Rightarrow> string
       \<Rightarrow> SearchResult list \<Rightarrow> nat \<Rightarrow> nat \<Rightarrow> SearchResult list"
  and forEachSearch ::
    "(string \<Rightarrow> string) \<Rightarrow> (jsonValue \<Rightarrow> string option) \<Rightarrow> bucket \<Rightarrow> string \<Rightarrow> string
       \<Rightarrow> SearchResult list \<Rightarrow> nat \<Rightarrow> SearchResult list"
where
  "searchInBucket ul mi bucket path query results found maxResults =
     (if length results \<ge> maxResults then results
      else forEachSearch ul mi bucket path query results maxResults)"
| "forEachSearch ul mi [] path query results maxResults = results"
| "forEachSearch ul mi ((k, v) # rest) path query results maxResults =
     forEachSearch ul mi rest path query
       (let keyName = k;
            currentPath = (if path \<noteq> [] then path @ ''/'' else path) @ keyName
        in case v of
             Sub subBucket \<Rightarrow>
               searchInBucket ul mi subBucket currentPath query results (length results) maxResults
           | KV val \<Rightarrow>
               (if Contains (ToLower ul keyName) query then
                  (let kv = parseKeyValue mi k val;
                       preview = Preview kv;
                       preview = (if length preview > 200 then take 200 preview @ ''...'' else preview)
                   in results @ [\<lparr>r_bucket = path, r_key = keyName, r_path = currentPath,
                                   r_type = ValueType kv, r_size = ValueSize kv,
                                   r_preview = preview\<rparr>])
                else results))
       maxResults"
  by pat_completeness auto
termination
  by (relation "measure (\<lambda>x. case x of
         Inl (ul, mi, b, path, query, results, found, maxResults) \<Rightarrow> 2 * size (Sub b) + 1
       | Inr (ul, mi, b, path, query, results, maxResults) \<Rightarrow> 2 * size (Sub b))") auto

text \<open>
  \<open>searchKeys\<close> on an opened read transaction: \<open>tx.ForEach\<close> visits the top-level
  buckets, each searched with the shared results and the cap 100. (The root holds
  buckets only; a plain value there is skipped.)
\<close>

fun forEachTop ::
    "(string \<Rightarrow> string) \<Rightarrow> (jsonValue \<Rightarrow> string option) \<Rightarrow> bucket \<Rightarrow> string
       \<Rightarrow> SearchResult list \<Rightarrow> SearchResult list" where
  "forEachTop ul mi [] query results = results"
| "forEachTop ul mi ((name, v) # rest) query results =
     forEachTop ul mi rest query
       (case v of
          Sub b \<Rightarrow> searchInBucket ul mi b name query results 0 100
        | KV val \<Rightarrow> results)"

definition searchKeys ::
    "(string \<Rightarrow> string) \<Rightarrow> (jsonValue \<Rightarrow> string option) \<Rightarrow> bucket \<Rightarrow> string \<Rightarrow> SearchResult list" where
  "searchKeys ul mi tx query0 =
     (let results = [];
          query = ToLower ul query0
      in forEachTop ul mi tx query results)"

section \<open>Decoding a timestamp\<close>

text \<open>
  \<open>handleDecodeTime\<close> calls \<open>Time.UnmarshalBinary\<close> of the Go library: a version
  byte (1, or 2 for a zone offset with seconds), eight bytes of seconds since year 1,
  four bytes of nanoseconds, two bytes of zone offset in minutes (-1 for UTC) and, in
  version 2, one byte of offset seconds; all big-endian. The decoded \<open>Time\<close> keeps the
  nanoseconds in \<open>wall\<close> and the seconds in \<open>ext\<close>.

  The location of the decoded time is UTC for the offset -1 minute. For any other
  offset the library takes \<open>Local\<close> when the zone of the machine has that offset at
  the instant and a nameless fixed zone otherwise; which of the two depends on the
  machine, and both are \<open>LocalOrFixed\<close> with the offset in seconds.
\<close>

datatype location = UTC | LocalOrFixed int

record Time =
  wall :: "64 word"
  ext :: "64 word"
  loc :: location

definition hasMonotonic :: "64 word" where
  "hasMonotonic = push_bit 63 1"

definition nsecMask :: "64 word" where
  "nsecMask = push_bit 30 1 - 1"

definition wallToInternal :: "64 word" where
  "wallToInternal = (1884 * 365 + 1884 div 4 - 1884 div 100 + 1884 div 400) * 86400"

definition internalToUnix :: "64 word" where
  "internalToUnix = - ((1969 * 365 + 1969 div 4 - 1969 div 100 + 1969 div 400) * 86400)"

text \<open>
  \<open>t.sec()\<close>: the seconds since year 1, read from \<open>wall\<close> (seconds since 1885) when
  the monotonic flag is set and from \<open>ext\<close> otherwise, in 64-bit arithmetic.
\<close>

definition sec :: "Time \<Rightarrow> 64 word" where
  "sec t =
     (if wall t AND hasMonotonic \<noteq> 0
      then wallToInternal + drop_bit (30 + 1) (push_bit 1 (wall t))
      else ext t)"

text \<open>
  \<open>t.setLoc(loc)\<close> strips the monotonic reading first: with the flag set, \<open>ext\<close>
  becomes \<open>t.sec()\<close> and \<open>wall\<close> keeps its nanosecond bits only.
\<close>

definition stripMono :: "Time \<Rightarrow> Time" where
  "stripMono t =
     (if wall t AND hasMonotonic \<noteq> 0
      then t\<lparr>ext := sec t, wall := wall t AND nsecMask\<rparr>
      else t)"

definition setLoc :: "Time \<Rightarrow> location \<Rightarrow> Time" where
  "setLoc t l = (stripMono t)\<lparr>loc := l\<rparr>"

definition u8 :: "byte \<Rightarrow> 'a::len word" where
  "u8 b = of_char b"

definition UnmarshalBinary :: "bytes \<Rightarrow> string + Time" where
  "UnmarshalBinary data =
     (if length data = 0 then Inl ''Time.UnmarshalBinary: no data''
      else
        let version = data ! 0 in
        if version \<noteq> CHR 0x01 \<and> version \<noteq> CHR 0x02
        then Inl ''Time.UnmarshalBinary: unsupported version''
        else
          let wantLen = (if version = CHR 0x02 then 1 + 8 + 4 + 2 + 1 else 1 + 8 + 4 + 2 :: nat) in
          if length data \<noteq> wantLen then Inl ''Time.UnmarshalBinary: invalid length''
          else
            let buf = drop 1 data;
                seconds = (u8 (buf ! 7) OR push_bit 8 (u8 (buf ! 6)) OR push_bit 16 (u8 (buf ! 5))
                       OR push_bit 24 (u8 (buf ! 4)) OR push_bit 32 (u8 (buf ! 3))
                       OR push_bit 40 (u8 (buf ! 2)) OR push_bit 48 (u8 (buf ! 1))
                       OR push_bit 56 (u8 (buf ! 0)) :: 64 word);
                buf = drop 8 buf;
                nsec = (u8 (buf ! 3) OR push_bit 8 (u8 (buf ! 2)) OR push_bit 16 (u8 (buf ! 1))
                        OR push_bit 24 (u8 (buf ! 0)) :: 32 word);
                buf = drop 4 buf;
                offset = sint (u8 (buf ! 1) OR push_bit 8 (u8 (buf ! 0)) :: 16 word) * 60;
                offset = (if version = CHR 0x02 then offset + of_char (buf ! 2) else offset);
                t = \<lparr>wall = scast nsec, ext = seconds, loc = UTC\<rparr>
            in Inr (setLoc t (if offset = - 1 * 60 then UTC else LocalOrFixed offset)))"

text \<open>\<open>t.Unix()\<close>: the seconds since 1970.\<close>

definition Unix :: "Time \<Rightarrow> int" where
  "Unix t = sint (sec t + internalToUnix)"

text \<open>
  \<open>t.Format(layout)\<close> depends on the time zone data of the machine (for the zone
  name and for \<open>Local\<close>); the text is kept as the pair of the time and the layout.
\<close>

datatype timeText = Format Time string

record TimeResult =
  decodedTime :: timeText
  timestamp :: int
  iso :: timeText

definition RFC3339 :: string where
  "RFC3339 = ''2006-01-02T15:04:05Z07:00''"

datatype decodeError = FailedToGetKey lookupError | FailedToDecodeTimestamp string

text \<open>The part of \<open>handleDecodeTime\<close> after the value has been read.\<close>

definition decodeTimestamp :: "bytes \<Rightarrow> decodeError + TimeResult" where
  "decodeTimestamp value =
     (case UnmarshalBinary value of
        Inl err \<Rightarrow> Inl (FailedToDecodeTimestamp err)
      | Inr t \<Rightarrow>
          Inr \<lparr>decodedTime = Format t ''2006-01-02 15:04:05 MST'',
               timestamp = Unix t,
               iso = Format t RFC3339\<rparr>)"

text \<open>
  \<open>handleDecodeTime\<close> on an opened read transaction, with the bucket path and the key
  already URL-decoded.
\<close>

definition handleDecodeTime :: "bucket \<Rightarrow> string \<Rightarrow> string \<Rightarrow> decodeError + TimeResult" where
  "handleDecodeTime tx decodedPath decodedKey =
     (case findBucket tx decodedPath of
        None \<Rightarrow> Inl (FailedToGetKey (BucketNotFound decodedPath))
      | Some b \<Rightarrow>
          (case Get b decodedKey of
             None \<Rightarrow> Inl (FailedToGetKey (KeyNotFound decodedKey))
           | Some value \<Rightarrow> decodeTimestamp value))"

section \<open>Properties of the path helpers\<close>


lemma splitSlash_nonempty [simp]: "splitSlash s \<noteq> []"
  by (induction s) (auto split: list.splits)

lemma splitSlash_no_slash: "p \<in> set (splitSlash s) \<Longrightarrow> slash \<notin> set p"
  by (induction s arbitrary: p) (auto split: list.splits if_splits)

lemma splitSlash_append_slash:
  "splitSlash (a @ slash # b) = splitSlash a @ splitSlash b"
  by (induction a) (auto split: list.splits)

lemma splitSlash_free: "slash \<notin> set p \<Longrightarrow> splitSlash p = [p]"
  by (induction p) auto

lemma splitSlash_joinSlash:
  "parts \<noteq> [] \<Longrightarrow> \<forall>p \<in> set parts. slash \<notin> set p \<Longrightarrow> splitSlash (joinSlash parts) = parts"
  by (induction parts rule: joinSlash.induct)
     (auto simp: splitSlash_free splitSlash_append_slash)

lemma filter_splitSlash_dropWhile:
  "filter (\<lambda>p. p \<noteq> []) (splitSlash (dropWhile (\<lambda>c. c = slash) s)) = filter (\<lambda>p. p \<noteq> []) (splitSlash s)"
  by (induction s) auto

lemma filter_splitSlash_trimRight:
  "filter (\<lambda>p. p \<noteq> []) (splitSlash (rev (dropWhile (\<lambda>c. c = slash) (rev s)))) = filter (\<lambda>p. p \<noteq> []) (splitSlash s)"
proof (induction s rule: rev_induct)
  case Nil
  show ?case by simp
next
  case (snoc c s)
  show ?case
  proof (cases "c = slash")
    case True
    have "splitSlash (s @ [slash]) = splitSlash s @ [[]]"
      using splitSlash_append_slash [of s "[]"] by simp
    with True snoc show ?thesis by simp
  next
    case False
    then show ?thesis by simp
  qed
qed

lemma filter_splitSlash_trimSlash:
  "filter (\<lambda>p. p \<noteq> []) (splitSlash (trimSlash s)) = filter (\<lambda>p. p \<noteq> []) (splitSlash s)"
  by (simp add: trimSlash_def filter_splitSlash_trimRight filter_splitSlash_dropWhile)


lemma segments_wf: "\<forall>p \<in> set (segments path). p \<noteq> [] \<and> slash \<notin> set p"
  by (auto simp: segments_def dest: splitSlash_no_slash)

lemma findBucket_segments:
  "findBucket tx path =
     (if segments path = [] then None
      else (case Bucket_of tx (segments path ! 0) of
              None \<Rightarrow> None
            | Some bucket \<Rightarrow> findLoop (segments path) bucket 1))"
proof (cases "trimSlash path = []")
  case True
  have "segments path = filter (\<lambda>p. p \<noteq> []) (splitSlash (trimSlash path))"
    by (simp add: segments_def filter_splitSlash_trimSlash)
  with True have "segments path = []" by simp
  with True show ?thesis by (simp add: findBucket_def)
next
  case False
  then show ?thesis
    by (simp add: findBucket_def Let_def segments_def filter_splitSlash_trimSlash
          cong: option.case_cong)
qed

lemma segments_joinSlash:
  assumes "segments path \<noteq> []"
  shows "segments (joinSlash (segments path)) = segments path"
proof -
  from segments_wf have "\<forall>p \<in> set (segments path). slash \<notin> set p" by blast
  with assms have "splitSlash (joinSlash (segments path)) = segments path"
    by (rule splitSlash_joinSlash)
  moreover have "filter (\<lambda>p. p \<noteq> []) (segments path) = segments path"
    by (simp add: segments_def)
  ultimately show ?thesis by (simp add: segments_def [of "joinSlash (segments path)"])
qed

lemma segments_replicate: "segments (replicate n slash) = []"
  by (induction n) (auto simp: segments_def)

section \<open>Claims about the resolver\<close>

text \<open>
  Claim C10. For every store and every path string \<open>p\<close>, resolving \<open>p\<close> gives the
  same result as resolving \<open>p\<close> with all empty segments removed (leading, trailing and
  consecutive slashes are ignored); resolving the empty string or a string made only of
  slashes returns NotFound (\<open>None\<close>).
\<close>

theorem findBucket_ignores_empty_segments:
  "findBucket tx p = findBucket tx (joinSlash (filter (\<lambda>s. s \<noteq> []) (splitSlash p)))
   \<and> findBucket tx (replicate n CHR ''/'') = None \<and> findBucket tx [] = None"
proof -
  have a: "findBucket tx p = findBucket tx (joinSlash (segments p))"
  proof (cases "segments p = []")
    case True
    then show ?thesis by (simp add: findBucket_segments segments_def)
  next
    case False
    then show ?thesis
      by (simp add: findBucket_segments [of tx p]
            findBucket_segments [of tx "joinSlash (segments p)"] segments_joinSlash
          cong: option.case_cong)
  qed
  have b: "findBucket tx (replicate n slash) = None"
    by (simp add: findBucket_segments segments_replicate)
  have c: "findBucket tx [] = None" using segments_replicate [of 0]
    by (simp add: findBucket_segments)
  from a b c show ?thesis by (simp add: segments_def slash_def)
qed


lemma mergeLoop_found:
  "mergeLoop parts bucket i j = Some (cand, j') \<Longrightarrow>
     Bucket_of bucket (joinSlash (take (j' - i) (drop i parts))) = Some cand"
proof (induction parts bucket i j rule: mergeLoop.induct)
  case (1 parts bucket i j)
  show ?case
  proof (cases "Bucket_of bucket (joinSlash (take (j - i) (drop i parts)))")
    case None
    with "1.prems" have gt: "j > i + 1" and rec: "mergeLoop parts bucket i (j - 1) = Some (cand, j')"
      by (simp_all add: mergeLoop.simps [of parts bucket i j] split: if_splits)
    from "1.IH" [OF gt None rec] show ?thesis .
  next
    case (Some c)
    with "1.prems" show ?thesis
      by (simp add: mergeLoop.simps [of parts bucket i j] split: if_splits)
  qed
qed

lemma findLoop_full_path:
  "findLoop parts bucket i = Some b \<Longrightarrow> i \<le> length parts \<Longrightarrow>
     \<exists>groups. [] \<notin> set groups \<and> concat groups = drop i parts
        \<and> descend bucket (map joinSlash groups) = Some b"
proof (induction parts bucket i rule: findLoop.induct)
  case (1 parts bucket i)
  show ?case
  proof (cases "i < length parts")
    case False
    with "1.prems" have "b = bucket" "drop i parts = []"
      by (simp_all add: findLoop.simps [of parts bucket i])
    then have "[] \<notin> set ([] :: string list list) \<and> concat [] = drop i parts
        \<and> descend bucket (map joinSlash []) = Some b" by simp
    then show ?thesis by blast
  next
    case lt: True
    show ?thesis
    proof (cases "Bucket_of bucket (parts ! i)")
      case (Some nxt)
      with lt "1.prems" have run: "findLoop parts nxt (i + 1) = Some b"
        by (simp add: findLoop.simps [of parts bucket i])
      from lt have "i + 1 \<le> length parts" by simp
      from "1.IH"(2) [OF lt Some run this] obtain groups where
        g: "[] \<notin> set groups" "concat groups = drop (i + 1) parts"
           "descend nxt (map joinSlash groups) = Some b" by blast
      let ?gs = "[parts ! i] # groups"
      from lt g(2) have "concat ?gs = drop i parts"
        by (simp add: Cons_nth_drop_Suc)
      moreover from g(1) have "[] \<notin> set ?gs" by simp
      moreover from Some g(3) have "descend bucket (map joinSlash ?gs) = Some b" by simp
      ultimately show ?thesis by blast
    next
      case None
      show ?thesis
      proof (cases "Bucket_of bucket (joinSlash (drop i parts))")
        case (Some found)
        with lt None "1.prems" have "b = found"
          by (simp add: findLoop.simps [of parts bucket i])
        let ?gs = "[drop i parts]"
        from lt have "[] \<notin> set ?gs" by simp
        moreover have "concat ?gs = drop i parts" by simp
        moreover from Some \<open>b = found\<close> have "descend bucket (map joinSlash ?gs) = Some b" by simp
        ultimately show ?thesis by blast
      next
        case none2: None
        show ?thesis
        proof (cases "mergeLoop parts bucket i (length parts)")
          case None' : None
          with lt None none2 "1.prems" show ?thesis
            by (simp add: findLoop.simps [of parts bucket i])
        next
          case (Some r)
          obtain cand j where r: "r = (cand, j)" by (cases r)
          with Some have m: "mergeLoop parts bucket i (length parts) = Some (cand, j)" by simp
          from mergeLoop_bounds [OF m] have jb: "i + 1 < j" "j \<le> length parts" by simp_all
          from mergeLoop_found [OF m]
          have f: "Bucket_of bucket (joinSlash (take (j - i) (drop i parts))) = Some cand" .
          from lt None none2 m "1.prems" jb have run: "findLoop parts cand j = Some b"
            by (simp add: findLoop.simps [of parts bucket i])
          from jb have j1: "j - 1 + 1 = j" by simp
          from "1.IH"(1) [OF lt None none2 Some r [symmetric]] run jb(2) j1
          obtain groups where
            g: "[] \<notin> set groups" "concat groups = drop j parts"
               "descend cand (map joinSlash groups) = Some b" by auto
          let ?gs = "take (j - i) (drop i parts) # groups"
          from jb lt have "take (j - i) (drop i parts) \<noteq> []" by simp
          with g(1) have "[] \<notin> set ?gs" by auto
          moreover have "concat ?gs = drop i parts"
          proof -
            from jb have "drop j parts = drop (j - i) (drop i parts)" by simp
            with g(2) have "concat ?gs = take (j - i) (drop i parts) @ drop (j - i) (drop i parts)"
              by (simp del: drop_drop)
            then show ?thesis by (simp only: append_take_drop_id)
          qed
          moreover from f g(3) have "descend bucket (map joinSlash ?gs) = Some b" by simp
          ultimately show ?thesis by blast
        qed
      qed
    qed
  qed
qed

text \<open>
  Claim C4. For every store and every path, resolution returns either NotFound or a
  bucket reached from the root by consuming the whole path: the segments are cut into
  consecutive non-empty groups, each group joined with slashes is one bucket name, and
  following all these names from the root gives the returned bucket. So an ancestor is
  never returned when a later segment fails to match. In particular the path
  \<open>A/nonexistent\<close>, when \<open>A\<close> has no sub-bucket of that name, yields NotFound.
\<close>

theorem findBucket_full_path_or_NotFound:
  "(findBucket tx path = Some b \<longrightarrow>
      (\<exists>groups. groups \<noteq> [] \<and> [] \<notin> set groups
          \<and> concat groups = filter (\<lambda>s. s \<noteq> []) (splitSlash path)
          \<and> descend tx (map joinSlash groups) = Some b))
   \<and> ((\<forall>a. Bucket_of tx ''A'' = Some a \<longrightarrow> Bucket_of a ''nonexistent'' = None)
        \<longrightarrow> findBucket tx ''A/nonexistent'' = None)"
proof (intro conjI impI)
  assume r: "findBucket tx path = Some b"
  let ?parts = "segments path"
  from r have ne: "?parts \<noteq> []"
    by (auto simp: findBucket_segments split: if_splits)
  from r ne obtain top where top: "Bucket_of tx (?parts ! 0) = Some top"
    and run: "findLoop ?parts top 1 = Some b"
    by (auto simp: findBucket_segments split: option.splits)
  from ne have "1 \<le> length ?parts" by (cases ?parts) simp_all
  from findLoop_full_path [OF run this] obtain groups where
    g: "[] \<notin> set groups" "concat groups = drop 1 ?parts"
       "descend top (map joinSlash groups) = Some b" by blast
  let ?gs = "[?parts ! 0] # groups"
  from ne g(2) have "concat ?gs = ?parts" by (cases ?parts) simp_all
  moreover from g(1) have "?gs \<noteq> []" "[] \<notin> set ?gs" by simp_all
  moreover from top g(3) have "descend tx (map joinSlash ?gs) = Some b" by simp
  ultimately show "\<exists>groups. groups \<noteq> [] \<and> [] \<notin> set groups
          \<and> concat groups = filter (\<lambda>s. s \<noteq> []) (splitSlash path)
          \<and> descend tx (map joinSlash groups) = Some b"
    unfolding segments_def by blast
next
  assume h: "\<forall>a. Bucket_of tx ''A'' = Some a \<longrightarrow> Bucket_of a ''nonexistent'' = None"
  have seg: "segments ''A/nonexistent'' = [''A'', ''nonexistent'']"
    by (simp add: segments_def slash_def)
  show "findBucket tx ''A/nonexistent'' = None"
  proof (cases "Bucket_of tx ''A''")
    case None
    then show ?thesis by (simp add: findBucket_segments seg)
  next
    case (Some a)
    with h have n: "Bucket_of a ''nonexistent'' = None" by simp
    have m: "mergeLoop [''A'', ''nonexistent''] a (Suc 0) (Suc (Suc 0)) = None"
      by (simp add: mergeLoop.simps)
    from Some n m show ?thesis
      by (simp add: findBucket_segments seg findLoop.simps [of _ a "Suc 0"])
  qed
qed

text \<open>
  The theorem at a store with the buckets \<open>A\<close> and \<open>A/B\<close>: the path \<open>A/B\<close>
  resolves to the inner bucket, and \<open>A/nonexistent\<close> is not found.
\<close>

theorem findBucket_full_path_or_NotFound_witness:
  "findBucket [(''A'', Sub [(''B'', Sub [])])] ''A/B'' = Some []
   \<and> (\<exists>groups. groups \<noteq> [] \<and> [] \<notin> set groups
          \<and> concat groups = filter (\<lambda>s. s \<noteq> []) (splitSlash ''A/B'')
          \<and> descend [(''A'', Sub [(''B'', Sub [])])] (map joinSlash groups) = Some [])
   \<and> Bucket_of [(''A'', Sub [(''B'', Sub [])])] ''A'' = Some [(''B'', Sub [])]
   \<and> Bucket_of [(''B'', Sub [])] ''nonexistent'' = None
   \<and> findBucket [(''A'', Sub [(''B'', Sub [])])] ''A/nonexistent'' = None"
proof -
  let ?tx = "[(''A'', Sub [(''B'', Sub [])])]"
  have 1: "findBucket ?tx ''A/B'' = Some []"
    by (simp add: findBucket_def trimSlash_def slash_def Bucket_of_def findLoop.simps)
  have 2: "\<forall>a. Bucket_of ?tx ''A'' = Some a \<longrightarrow> Bucket_of a ''nonexistent'' = None"
    by (simp add: Bucket_of_def)
  have 3: "Bucket_of ?tx ''A'' = Some [(''B'', Sub [])]"
    "Bucket_of [(''B'', Sub [])] ''nonexistent'' = None"
    by (simp_all add: Bucket_of_def)
  from findBucket_full_path_or_NotFound [of ?tx "''A/B''" "[]"] 1 2 3 show ?thesis
    by blast
qed



text \<open>
  Claim C1, as stated, fails: for the store whose only top-level bucket is named
  \<open>x/y\<close>, the path \<open>x/y\<close> is split into \<open>x\<close> and \<open>y\<close>, the top-level lookup
  of \<open>x\<close> finds nothing, and \<open>findBucket\<close> returns nil there, before any fallback.
\<close>

theorem findBucket_top_level_slash_name_counterexample:
  "findBucket [(''x/y'', Sub [(''k'', KV ''v'')])] ''x/y'' = None"
  by (simp add: findBucket_def trimSlash_def slash_def Bucket_of_def)

text \<open>
  Claim C1, amended. The fallback that matches the remaining path as one name works
  below the top level only. For a store whose top-level bucket \<open>a\<close> holds a single
  sub-bucket literally named \<open>x/y\<close>, resolving \<open>a/x/y\<close> returns that sub-bucket; for a
  store whose only top-level entry is named \<open>x/y\<close>, resolving \<open>x/y\<close> returns NotFound.
\<close>

theorem findBucket_slash_name_below_top_level:
  "findBucket [(''a'', Sub [(''x/y'', Sub c)])] ''a/x/y'' = Some c
   \<and> findBucket [(''x/y'', e)] ''x/y'' = None"
proof -
  have seg: "segments ''a/x/y'' = [''a'', ''x'', ''y'']"
    by (simp add: segments_def slash_def)
  have seg2: "segments ''x/y'' = [''x'', ''y'']"
    by (simp add: segments_def slash_def)
  have "findBucket [(''a'', Sub [(''x/y'', Sub c)])] ''a/x/y'' = Some c"
    by (simp add: findBucket_segments seg Bucket_of_def slash_def
          findLoop.simps [of _ _ "Suc 0"])
  moreover have "findBucket [(''x/y'', e)] ''x/y'' = None"
    by (simp add: findBucket_segments seg2 Bucket_of_def)
  ultimately show ?thesis by simp
qed


section \<open>Properties of the scanner\<close>

lemma scanStep_NUL: "scanStep s (CHR 0x00) = None"
  by (cases "step s")
     (simp_all add: scanStep_def stateBeginValueOrEmpty_def stateBeginValue_def
        stateBeginStringOrEmpty_def stateBeginString_def stateEndValue_def stateEndTop_def
        stateInString_def stateInStringEsc_def stateHex_def stateNeg_def state1_def
        state0_def stateDot_def stateDot0_def stateE_def stateESign_def stateE0_def
        stateLetter_def pushParseState_def popParseState_def isSpace_def isDigit_def
        isDigit19_def isHex_def
      split: list.splits parseStateT.splits)

lemma scanBytes_NUL: "CHR 0x00 \<in> set data \<Longrightarrow> scanBytes s data = None"
  by (induction data arbitrary: s) (auto simp: scanStep_NUL split: option.splits)

lemma json_Unmarshal_NUL: "CHR 0x00 \<in> set data \<Longrightarrow> json_Unmarshal data = None"
  by (simp add: json_Unmarshal_def checkValid_def scanBytes_NUL)

lemma containsNul_iff: "containsNul data = (CHR 0x00 \<in> set data)"
  by (induction data) auto

lemma isUTF8_NUL: "CHR 0x00 \<in> set data \<Longrightarrow> \<not> isUTF8 data"
  by (simp add: isUTF8_def containsNul_iff)

lemma json_Unmarshal_empty: "json_Unmarshal [] = None"
  by (simp add: json_Unmarshal_def checkValid_def eof_def reset_def scanStep_def
        stateBeginValue_def isSpace_def)

lemma scan_accents:
  "step s = InString \<Longrightarrow> scanBytes s (concat (replicate n [CHR 0xC3, CHR 0xA9])) = Some s"
  by (induction n) (simp_all add: scanStep_def stateInString_def)

lemma lits_accents:
  "numberLits InStr (concat (replicate n [CHR 0xC3, CHR 0xA9]) @ rest) = numberLits InStr rest"
  by (induction n) simp_all

lemma scanBytes_append:
  "scanBytes s (xs @ ys) = (case scanBytes s xs of None \<Rightarrow> None | Some s' \<Rightarrow> scanBytes s' ys)"
  by (induction xs arbitrary: s) (simp_all split: option.splits)

lemma accentedDoc_json: "json_Unmarshal accentedDoc = Some (Decoded accentedDoc)"
proof -
  have a: "scanBytes reset accentedDoc = Some \<lparr>step = EndValue, parseState = []\<rparr>"
    by (simp add: accentedDoc_def reset_def scanStep_def stateBeginValue_def isSpace_def
          scanBytes_append scan_accents stateInString_def)
  have b: "numberLits Outside accentedDoc = []"
    by (simp add: accentedDoc_def lits_accents)
  show ?thesis
    by (simp add: json_Unmarshal_def checkValid_def a b eof_def scanStep_def stateEndValue_def
          stateEndTop_def isSpace_def)
qed

lemma length_accents: "length (concat (replicate n [a, b])) = 2 * n"
  by (induction n) simp_all

lemma accentedDoc_length: "length accentedDoc = 1004"
  by (simp add: accentedDoc_def length_accents)

lemma count_accents:
  "length (filter (\<lambda>c. \<not> contByte c) (concat (replicate n [CHR 0xC3, CHR 0xA9]))) = n"
  by (induction n) (simp_all add: contByte_def inRange_def)

lemma accentedDoc_chars: "charCount accentedDoc = 503"
proof -
  have q: "\<not> contByte (CHR 0x22)" by (simp add: contByte_def inRange_def)
  show ?thesis by (simp add: charCount_def accentedDoc_def count_accents q)
qed

lemma accentedDoc_take:
  "take 1000 accentedDoc = CHR 0x22 # concat (replicate 499 [CHR 0xC3, CHR 0xA9]) @ [CHR 0xC3]"
proof -
  have "replicate 501 [CHR 0xC3, CHR 0xA9]
          = replicate 499 [CHR 0xC3, CHR 0xA9] @ [[CHR 0xC3, CHR 0xA9], [CHR 0xC3, CHR 0xA9]]"
    by (simp add: replicate_add [of 499 2, simplified] numeral_2_eq_2)
  then have e: "accentedDoc = (CHR 0x22 # concat (replicate 499 [CHR 0xC3, CHR 0xA9]))
                 @ [CHR 0xC3, CHR 0xA9, CHR 0xC3, CHR 0xA9, CHR 0x22]"
    by (simp add: accentedDoc_def)
  have l: "length (CHR 0x22 # concat (replicate 499 [CHR 0xC3, CHR 0xA9])) = 999"
    by (simp add: length_accents)
  have "take 1000 ((CHR 0x22 # concat (replicate 499 [CHR 0xC3, CHR 0xA9]))
                 @ [CHR 0xC3, CHR 0xA9, CHR 0xC3, CHR 0xA9, CHR 0x22])
        = (CHR 0x22 # concat (replicate 499 [CHR 0xC3, CHR 0xA9])) @ [CHR 0xC3]"
    by (simp only: take_append l) (simp add: length_accents)
  with e show ?thesis by simp
qed

section \<open>Claims about the classifier\<close>

text \<open>
  Claim C5. For every byte sequence containing at least one NUL (0x00) byte,
  classification reports kind Binary, never Text and never JSON.
\<close>

theorem parseKeyValue_NUL_Binary:
  assumes "CHR 0x00 \<in> set value"
  shows "ValueType (parseKeyValue marshalIndent key value) = ''Binary''
         \<and> IsJSON (parseKeyValue marshalIndent key value) = False
         \<and> IsBinary (parseKeyValue marshalIndent key value) = True"
  using assms
  by (simp add: parseKeyValue_def json_Unmarshal_NUL isUTF8_NUL)

text \<open>The theorem at the three bytes \<open>a\<close>, NUL, \<open>b\<close>.\<close>

theorem parseKeyValue_NUL_Binary_witness:
  "CHR 0x00 \<in> set [CHR ''a'', CHR 0x00, CHR ''b'']
   \<and> ValueType (parseKeyValue (\<lambda>j. None) ''k'' [CHR ''a'', CHR 0x00, CHR ''b'']) = ''Binary''
   \<and> IsJSON (parseKeyValue (\<lambda>j. None) ''k'' [CHR ''a'', CHR 0x00, CHR ''b'']) = False
   \<and> IsBinary (parseKeyValue (\<lambda>j. None) ''k'' [CHR ''a'', CHR 0x00, CHR ''b'']) = True"
  using parseKeyValue_NUL_Binary [of "[CHR ''a'', CHR 0x00, CHR ''b'']" "\<lambda>j. None" "''k''"]
  by simp

text \<open>
  Claim C6. For the empty byte sequence, classification reports kind Binary, with the
  placeholder decoded value stating the byte length and the fixed marker
  \<open>(empty data)\<close> as its preview.
\<close>

theorem parseKeyValue_empty:
  "ValueType (parseKeyValue marshalIndent key []) = ''Binary''
   \<and> IsBinary (parseKeyValue marshalIndent key []) = True
   \<and> IsJSON (parseKeyValue marshalIndent key []) = False
   \<and> Value (parseKeyValue marshalIndent key []) = Str ''<0 bytes binary data>''
   \<and> Preview (parseKeyValue marshalIndent key []) = ''(empty data)''"
  by (simp add: parseKeyValue_def json_Unmarshal_empty isUTF8_def formatBinaryPreview_def
        fmt_d_def natDigits.simps digitChar_def)

text \<open>
  Claim C2, as stated, fails. The three bytes \<open>"\<close>, \<open>0xFF\<close>, \<open>"\<close> are a JSON string
  literal for \<open>json.Unmarshal\<close> (invalid UTF-8 inside a string is replaced, not
  rejected), so the kind is JSON; they are not valid UTF-8, so the binary flag, set to
  \<open>!isUTF8(value)\<close> before the JSON attempt, is true. (\<open>json.MarshalIndent\<close> gives
  the literal with U+FFFD there.)
\<close>

theorem parseKeyValue_flag_counterexample:
  "ValueType (parseKeyValue (\<lambda>j. Some [CHR 0x22, CHR 0xEF, CHR 0xBF, CHR 0xBD, CHR 0x22]) ''k''
       [CHR 0x22, CHR 0xFF, CHR 0x22]) = ''JSON''
   \<and> IsBinary (parseKeyValue (\<lambda>j. Some [CHR 0x22, CHR 0xEF, CHR 0xBF, CHR 0xBD, CHR 0x22]) ''k''
       [CHR 0x22, CHR 0xFF, CHR 0x22]) = True"
proof -
  have u: "json_Unmarshal [CHR 0x22, CHR 0xFF, CHR 0x22]
             = Some (Decoded [CHR 0x22, CHR 0xFF, CHR 0x22])"
    by (simp add: json_Unmarshal_def checkValid_def eof_def reset_def scanStep_def
          stateBeginValue_def stateInString_def stateEndValue_def stateEndTop_def
          isSpace_def isDigit_def)
  have v: "\<not> isUTF8 [CHR 0x22, CHR 0xFF, CHR 0x22]"
    by (simp add: isUTF8_def inRange_def)
  show ?thesis by (simp add: parseKeyValue_def u v)
qed

text \<open>
  Claim C2, amended. For every raw byte value, the binary flag is true if and only if
  the kind is Binary, or the kind is JSON and the value fails the \<open>isUTF8\<close> check
  (it is longer than 1 MiB or holds invalid UTF-8). A value classified as Text never
  carries the binary flag.
\<close>

theorem parseKeyValue_flag:
  "IsBinary (parseKeyValue marshalIndent key value)
     = (ValueType (parseKeyValue marshalIndent key value) = ''Binary''
        \<or> ValueType (parseKeyValue marshalIndent key value) = ''JSON'' \<and> \<not> isUTF8 value)
   \<and> \<not> (ValueType (parseKeyValue marshalIndent key value) = ''String''
          \<and> IsBinary (parseKeyValue marshalIndent key value))"
  by (simp add: parseKeyValue_def Let_def split: option.splits)

text \<open>
  Claim C3, as stated, fails: the budget of 1000 is counted and cut in bytes (\<open>len\<close>
  and \<open>[:1000]\<close> on the Go string), not in characters. The document
  \<open>accentedDoc\<close> re-serializes to itself, 503 characters in 1004 bytes; the bounded
  preview is nevertheless truncated, after 499 letters and the first byte of the next
  one.
\<close>

theorem json_preview_characters_counterexample:
  "json_Unmarshal accentedDoc = Some (Decoded accentedDoc)
   \<and> charCount accentedDoc = 503
   \<and> Preview (parseKeyValue (\<lambda>j. Some accentedDoc) ''k'' accentedDoc)
       = CHR 0x22 # concat (replicate 499 [CHR 0xC3, CHR 0xA9]) @ [CHR 0xC3]
           @ CHR 0x0A # ''... (truncated)''
   \<and> Preview (parseKeyValue (\<lambda>j. Some accentedDoc) ''k'' accentedDoc) \<noteq> accentedDoc"
proof -
  have p: "Preview (parseKeyValue (\<lambda>j. Some accentedDoc) ''k'' accentedDoc)
       = take 1000 accentedDoc @ CHR 0x0A # ''... (truncated)''"
    by (simp add: parseKeyValue_def accentedDoc_json accentedDoc_length truncatedMark_def)
  have "take 1000 accentedDoc @ CHR 0x0A # ''... (truncated)'' \<noteq> accentedDoc"
  proof
    assume "take 1000 accentedDoc @ CHR 0x0A # ''... (truncated)'' = accentedDoc"
    then have "length (take 1000 accentedDoc @ CHR 0x0A # ''... (truncated)'') = length accentedDoc"
      by (rule arg_cong)
    then show False by (simp add: accentedDoc_length)
  qed
  with p accentedDoc_json accentedDoc_chars accentedDoc_take show ?thesis by simp
qed

text \<open>
  Claim C3, amended. For every raw byte value that parses as a complete JSON document,
  with \<open>s\<close> its indented re-serialization: the bounded classification gives the
  preview \<open>s\<close>, cut to its first 1000 bytes and followed by the truncation marker
  whenever \<open>s\<close> is longer than 1000 bytes; the full classifications
  (\<open>getKeyDetails\<close>, \<open>getFullKeyData\<close>) give \<open>s\<close> untruncated.
\<close>

theorem json_preview:
  assumes "json_Unmarshal value = Some j" and "marshalIndent j = Some s"
  shows "Preview (parseKeyValue marshalIndent key value)
           = (if length s > 1000 then take 1000 s @ CHR 0x0A # ''... (truncated)'' else s)
         \<and> (findBucket tx bucketPath = Some b \<and> Get b keyName = Some value \<longrightarrow>
              (\<exists>kv. getKeyDetails marshalIndent tx bucketPath keyName = Inr kv
                    \<and> Preview kv = s)
              \<and> (\<exists>kv. getFullKeyData marshalIndent tx bucketPath keyName = Inr kv
                    \<and> Preview kv = s))"
  using assms
  by (simp add: parseKeyValue_def getKeyDetails_def getFullKeyData_def truncatedMark_def)

text \<open>
  The theorem at the document \<open>accentedDoc\<close> of 1004 bytes, stored under the key
  \<open>k\<close> of the bucket \<open>b\<close>: the bounded preview is cut to 1000 bytes and marked, the
  full previews are the whole re-serialization.
\<close>

theorem json_preview_witness:
  "json_Unmarshal accentedDoc = Some (Decoded accentedDoc)
   \<and> length accentedDoc = 1004
   \<and> findBucket [(''b'', Sub [(''k'', KV accentedDoc)])] ''b'' = Some [(''k'', KV accentedDoc)]
   \<and> Get [(''k'', KV accentedDoc)] ''k'' = Some accentedDoc
   \<and> Preview (parseKeyValue (\<lambda>j. Some accentedDoc) ''k'' accentedDoc)
       = take 1000 accentedDoc @ CHR 0x0A # ''... (truncated)''
   \<and> (\<exists>kv. getKeyDetails (\<lambda>j. Some accentedDoc) [(''b'', Sub [(''k'', KV accentedDoc)])] ''b'' ''k'' = Inr kv
           \<and> Preview kv = accentedDoc)
   \<and> (\<exists>kv. getFullKeyData (\<lambda>j. Some accentedDoc) [(''b'', Sub [(''k'', KV accentedDoc)])] ''b'' ''k'' = Inr kv
           \<and> Preview kv = accentedDoc)"
proof -
  have f: "findBucket [(''b'', Sub [(''k'', KV accentedDoc)])] ''b'' = Some [(''k'', KV accentedDoc)]"
    by (simp add: findBucket_def trimSlash_def slash_def Bucket_of_def findLoop.simps)
  have g: "Get [(''k'', KV accentedDoc)] ''k'' = Some accentedDoc"
    by (simp add: Get_def)
  from json_preview [of accentedDoc "Decoded accentedDoc" "\<lambda>j. Some accentedDoc" accentedDoc "''k''"
      "[(''b'', Sub [(''k'', KV accentedDoc)])]" "''b''" "[(''k'', KV accentedDoc)]" "''k''"]
    accentedDoc_json accentedDoc_length f g
  show ?thesis by simp
qed

section \<open>Properties of the hex dump loops\<close>

lemma natDigits16_length:
  assumes "n < 256"
  shows "length (natDigits 16 n) \<le> 2"
proof -
  from assms have "n div 16 < 16" by simp
  then show ?thesis
    by (simp add: natDigits.simps [of 16 n] natDigits.simps [of 16 "n div 16"])
qed

lemma fmt_02x_length: "length (fmt_02x b) = 2"
proof -
  have "(of_char b :: nat) < 256" by simp
  then have "length (natDigits 16 (of_char b)) \<le> 2" by (rule natDigits16_length)
  then show ?thesis by (simp add: fmt_02x_def padLeft_def)
qed

lemma byteLoop_slice:
  "j \<le> e \<Longrightarrow> e \<le> length data \<Longrightarrow>
   byteLoop data j e (hex, ascii) =
     (hex @ concat (map (\<lambda>b. fmt_02x b @ '' '') (take (e - j) (drop j data))),
      ascii @ map (\<lambda>b. if 32 \<le> (of_char b :: nat) \<and> (of_char b :: nat) \<le> 126 then b else CHR ''.'')
                (take (e - j) (drop j data)))"
proof (induction data j e "(hex, ascii)" arbitrary: hex ascii rule: byteLoop.induct)
  case (1 data j e hex ascii)
  show ?case
  proof (cases "j < e")
    case False
    with "1.prems" show ?thesis by (subst byteLoop.simps) simp
  next
    case True
    with "1.prems" have jl: "j < length data" by simp
    from True have ej: "e - j = Suc (e - (j + 1))" by simp
    have sl: "take (e - j) (drop j data) = data ! j # take (e - (j + 1)) (drop (j + 1) data)"
      using jl by (simp only: ej) (simp add: Cons_nth_drop_Suc [symmetric])
    from True "1.prems" have a: "j + 1 \<le> e" by simp
    show ?thesis
      using True "1.hyps" [OF True a "1.prems"(2)]
      by (simp add: byteLoop.simps [of data j e] sl)
  qed
qed

lemma padLoop_replicate: "padLoop hex = hex @ replicate (48 - length hex) CHR '' ''"
proof (induction hex rule: padLoop.induct)
  case (1 hex)
  show ?case
  proof (cases "length hex < 48")
    case True
    then have "48 - length hex = Suc (48 - length (hex @ '' ''))" by simp
    with True "1.IH" show ?thesis
      by (simp add: padLoop.simps [of hex] replicate_app_Cons_same)
  next
    case False
    then show ?thesis by (simp add: padLoop.simps [of hex])
  qed
qed

lemma hex_length: "length (concat (map (\<lambda>b. fmt_02x b @ '' '') bs)) = 3 * length bs"
  by (induction bs) (simp_all add: fmt_02x_length)

lemma lineLoop_step:
  assumes "i < m" "m \<le> length data"
  shows "lineLoop data m i preview =
           lineLoop data m (i + 16) (preview @ hexRecord i (take 16 (drop i (take m data))))"
proof -
  let ?e = "if i + 16 > m then m else i + 16"
  have e: "i \<le> ?e" "?e \<le> length data" using assms by auto
  have sl: "take (?e - i) (drop i data) = take 16 (drop i (take m data))"
    using assms by (auto simp: drop_take min_def)
  show ?thesis
    using assms
    by (subst lineLoop.simps)
       (simp add: Let_def byteLoop_slice [OF e] sl padLoop_replicate hex_length hexRecord_def
             del: drop_take)
qed

lemma lineLoop_records:
  "m \<le> length data \<Longrightarrow>
   lineLoop data m (16 * k) preview =
     preview @ concat (map (\<lambda>i. hexRecord (16 * i) (take 16 (drop (16 * i) (take m data))))
                        [k ..< (m + 15) div 16])"
proof (induction "(m + 15) div 16 - k" arbitrary: k preview)
  case 0
  then have "\<not> 16 * k < m" by auto
  moreover from 0 have "[k ..< (m + 15) div 16] = []" by simp
  ultimately show ?case by (simp add: lineLoop.simps [of data m "16 * k"])
next
  case (Suc n)
  then have lt: "16 * k < m" and kn: "k < (m + 15) div 16" by auto
  from Suc(2) have n: "n = (m + 15) div 16 - Suc k" by simp
  have "lineLoop data m (16 * k) preview =
          lineLoop data m (16 * Suc k) (preview @ hexRecord (16 * k) (take 16 (drop (16 * k) (take m data))))"
    using lineLoop_step [OF lt Suc(3), of preview] by (simp add: add.commute)
  also have "\<dots> = (preview @ hexRecord (16 * k) (take 16 (drop (16 * k) (take m data))))
      @ concat (map (\<lambda>i. hexRecord (16 * i) (take 16 (drop (16 * i) (take m data))))
                        [Suc k ..< (m + 15) div 16])"
    by (rule Suc(1) [OF n Suc(3)])
  finally show ?case using kn by (simp add: upt_conv_Cons)
qed


lemma take16_slice:
  assumes "16 * k + 16 \<le> m"
  shows "take 16 (drop (16 * k) (take m data)) = take 16 (drop (16 * k) data)"
proof -
  from assms have "min 16 (m - 16 * k) = 16" by simp
  then show ?thesis by (simp add: drop_take)
qed

lemma digitChar_not_newline: "digitChar d \<noteq> CHR 0x0A"
proof -
  have "d mod 16 < length ''0123456789abcdef''" by simp
  then have "digitChar d \<in> set ''0123456789abcdef''"
    unfolding digitChar_def by (rule nth_mem)
  then show ?thesis by auto
qed

lemma natDigits_no_newline: "CHR 0x0A \<notin> set (natDigits b n)"
proof (induction b n rule: natDigits.induct)
  case (1 base n)
  show ?case
  proof (cases "base < 2 \<or> n < base")
    case True
    then show ?thesis
      by (subst natDigits.simps) (simp add: digitChar_not_newline [symmetric])
  next
    case False
    with "1.IH" show ?thesis
      by (subst natDigits.simps) (simp add: digitChar_not_newline [symmetric])
  qed
qed

lemma hexRecord_newlines: "length (filter (\<lambda>c. c = CHR 0x0A) (hexRecord off bs)) = 1"
proof -
  have a: "filter (\<lambda>c. c = CHR 0x0A) (fmt_04x off) = []"
    using natDigits_no_newline [of 16 off]
    by (auto simp: fmt_04x_def padLeft_def filter_empty_conv)
  have b: "filter (\<lambda>c. c = CHR 0x0A) (concat (map (\<lambda>b. fmt_02x b @ '' '') bs)) = []"
  proof (induction bs)
    case Nil
    show ?case by simp
  next
    case (Cons x xs)
    have "filter (\<lambda>c. c = CHR 0x0A) (fmt_02x x) = []"
      using natDigits_no_newline [of 16 "of_char x"]
      by (auto simp: fmt_02x_def padLeft_def filter_empty_conv)
    with Cons show ?case by simp
  qed
  have c: "filter (\<lambda>c. c = CHR 0x0A)
             (map (\<lambda>b. if 32 \<le> (of_char b :: nat) \<and> (of_char b :: nat) \<le> 126 then b else CHR ''.'') bs) = []"
    by (induction bs) auto
  show ?thesis by (simp add: hexRecord_def a b c)
qed

lemma records_newlines:
  "length (filter (\<lambda>c. c = CHR 0x0A) (concat (map (\<lambda>k. hexRecord (f k) (g k)) ks))) = length ks"
  by (induction ks) (simp_all add: hexRecord_newlines)

section \<open>Claims about the hex dump\<close>

text \<open>
  Claim C7. For every 300-byte input, the bounded hex dump (cap 256) is the header line,
  exactly 16 records of 16 bytes each, and the trailing line \<open>... 44 more bytes\<close>;
  the unbounded hex dump of the same input is the header line and 19 records, the last
  one partial (12 bytes), with no trailing line. Counted in newline characters: 17
  lines before the marker in the bounded dump, 20 lines in the unbounded one.
\<close>

theorem hex_dump_300:
  assumes "length data = 300"
  shows "formatBinaryPreview data =
           hexHeader
           @ concat (map (\<lambda>k. hexRecord (16 * k) (take 16 (drop (16 * k) data))) [0..<16])
           @ ''... 44 more bytes''
         \<and> fullHexPreview data =
           hexHeader
           @ concat (map (\<lambda>k. hexRecord (16 * k) (take 16 (drop (16 * k) data))) [0..<19])
         \<and> list_all (\<lambda>k. length (take 16 (drop (16 * k) data)) = 16) [0..<18]
         \<and> length (take 16 (drop (16 * 18) data)) = 12
         \<and> length (filter (\<lambda>c. c = CHR 0x0A) (formatBinaryPreview data)) = 17
         \<and> length (filter (\<lambda>c. c = CHR 0x0A) (fullHexPreview data)) = 20"
proof -
  have le: "256 \<le> length data" using assms by simp
  have b0: "lineLoop data 256 0 hexHeader =
      hexHeader @ concat (map (\<lambda>i. hexRecord (16 * i) (take 16 (drop (16 * i) (take 256 data)))) [0..<16])"
    using lineLoop_records [OF le, of 0 hexHeader] by simp
  have b1: "map (\<lambda>i. hexRecord (16 * i) (take 16 (drop (16 * i) (take 256 data)))) [0..<16]
          = map (\<lambda>k. hexRecord (16 * k) (take 16 (drop (16 * k) data))) [0..<16]"
    by (rule map_cong [OF refl]) (simp add: take16_slice)
  have d44: "fmt_d 44 = ''44''"
    by (simp add: fmt_d_def natDigits.simps digitChar_def)
  have bounded: "formatBinaryPreview data =
           hexHeader
           @ concat (map (\<lambda>k. hexRecord (16 * k) (take 16 (drop (16 * k) data))) [0..<16])
           @ ''... 44 more bytes''"
    using assms by (simp add: formatBinaryPreview_def b0 b1 d44)
  have f0: "lineLoop data (length data) 0 hexHeader =
      hexHeader @ concat (map (\<lambda>i. hexRecord (16 * i) (take 16 (drop (16 * i) (take (length data) data))))
         [0..<(length data + 15) div 16])"
    using lineLoop_records [of "length data" data 0 hexHeader] by simp
  have full: "fullHexPreview data =
           hexHeader
           @ concat (map (\<lambda>k. hexRecord (16 * k) (take 16 (drop (16 * k) data))) [0..<19])"
    using assms f0 by (simp add: fullHexPreview_def)
  have lens: "list_all (\<lambda>k. length (take 16 (drop (16 * k) data)) = 16) [0..<18]"
    using assms by (simp add: list_all_iff)
  have last: "length (take 16 (drop (16 * 18) data)) = 12"
    using assms by simp
  have nl1: "length (filter (\<lambda>c. c = CHR 0x0A) (formatBinaryPreview data)) = 17"
    by (simp only: bounded filter_append length_append records_newlines) (simp add: hexHeader_def)
  have nl2: "length (filter (\<lambda>c. c = CHR 0x0A) (fullHexPreview data)) = 20"
    by (simp only: full filter_append length_append records_newlines) (simp add: hexHeader_def)
  from bounded full lens last nl1 nl2 show ?thesis by simp
qed

text \<open>The theorem at the input of 300 bytes \<open>A\<close>.\<close>

theorem hex_dump_300_witness:
  "length (replicate 300 CHR ''A'') = 300
   \<and> (formatBinaryPreview (replicate 300 CHR ''A'') =
           hexHeader
           @ concat (map (\<lambda>k. hexRecord (16 * k) (take 16 (drop (16 * k) (replicate 300 CHR ''A'')))) [0..<16])
           @ ''... 44 more bytes''
         \<and> fullHexPreview (replicate 300 CHR ''A'') =
           hexHeader
           @ concat (map (\<lambda>k. hexRecord (16 * k) (take 16 (drop (16 * k) (replicate 300 CHR ''A'')))) [0..<19])
         \<and> list_all (\<lambda>k. length (take 16 (drop (16 * k) (replicate 300 CHR ''A''))) = 16) [0..<18]
         \<and> length (take 16 (drop (16 * 18) (replicate 300 CHR ''A''))) = 12
         \<and> length (filter (\<lambda>c. c = CHR 0x0A) (formatBinaryPreview (replicate 300 CHR ''A''))) = 17
         \<and> length (filter (\<lambda>c. c = CHR 0x0A) (fullHexPreview (replicate 300 CHR ''A''))) = 20)"
proof -
  have h: "length (replicate 300 CHR ''A'') = 300" by simp
  show ?thesis by (rule conjI [OF h hex_dump_300 [OF h]])
qed

section \<open>Claims about the search\<close>

lemma forEachSearch_all_match:
  "list_all (\<lambda>(k, v). (case v of KV val \<Rightarrow> True | Sub b \<Rightarrow> False) \<and> Contains (ToLower ul k) query) es \<Longrightarrow>
   length (forEachSearch ul mi es path query results maxResults) = length results + length es"
proof (induction es arbitrary: results)
  case Nil
  show ?case by simp
next
  case (Cons e es)
  obtain k v where e: "e = (k, v)" by (cases e)
  with Cons.prems obtain val where v: "v = KV val" and c: "Contains (ToLower ul k) query"
    and rest: "list_all (\<lambda>(k, v). (case v of KV val \<Rightarrow> True | Sub b \<Rightarrow> False) \<and> Contains (ToLower ul k) query) es"
    by (cases v) auto
  show ?case
    by (simp add: e v c Cons.IH [OF rest] Let_def)
qed

lemma ToLower_k: "ToLower ul (replicate n CHR ''k'') = replicate n CHR ''k''"
  by (simp add: ToLower_def asciiLower_def list_all_iff map_replicate)

lemma Contains_k: "Contains (replicate (Suc n) CHR ''k'') ''k''"
  by simp

text \<open>
  Claim C8 says that the result list never holds more than the cap (100) entries. The
  code checks the cap when it enters a bucket; inside \<open>ForEach\<close> the callback's
  \<open>return nil\<close> after the cap is reached does not stop the iteration. For a store with
  one top-level bucket holding the 101 keys \<open>k\<close>, \<open>kk\<close>, \<open>kkk\<close>, ... and the query
  \<open>k\<close>, the search returns 101 results.
\<close>

theorem searchKeys_exceeds_cap:
  "length (searchKeys ul mi
     [(''b'', Sub (map (\<lambda>n. (replicate (Suc n) CHR ''k'', KV ''v'')) [0..<101]))] ''k'') = 101"
proof -
  let ?es = "map (\<lambda>n. (replicate (Suc n) CHR ''k'', KV ''v'')) [0..<101]"
  have q: "ToLower ul ''k'' = ''k''"
    using ToLower_k [of ul 1] by simp
  have all: "list_all (\<lambda>(k, v). (case v of KV val \<Rightarrow> True | Sub b \<Rightarrow> False) \<and> Contains (ToLower ul k) ''k'') ?es"
    unfolding list_all_iff by (auto simp: ToLower_k Contains_k simp del: replicate_Suc Contains.simps)
  have "length (forEachSearch ul mi ?es ''b'' ''k'' [] 100) = length ?es"
    using forEachSearch_all_match [OF all, of mi "''b''" "[]" 100] by simp
  then show ?thesis
    by (simp add: searchKeys_def q)
qed

section \<open>Claims about the timestamp decoder\<close>

lemma UnmarshalBinary_wrong_length:
  "length data \<noteq> (if take 1 data = [CHR 0x02] then 16 else 15) \<Longrightarrow>
     \<exists>msg. UnmarshalBinary data = Inl msg"
  by (cases data) (auto simp: UnmarshalBinary_def Let_def)

lemma epoch_v1:
  "UnmarshalBinary [CHR 0x01, CHR 0x00, CHR 0x00, CHR 0x00, CHR 0x0E, CHR 0x77, CHR 0x91, CHR 0xF7, CHR 0x00,
       CHR 0x00, CHR 0x00, CHR 0x00, CHR 0x00, z1, z2]
    = Inr \<lparr>wall = 0, ext = 62135596800,
           loc = (if sint (u8 z2 OR push_bit 8 (u8 z1) :: 16 word) * 60 = - 60 then UTC
                  else LocalOrFixed (sint (u8 z2 OR push_bit 8 (u8 z1) :: 16 word) * 60))\<rparr>"
  by (simp add: UnmarshalBinary_def Let_def u8_def setLoc_def stripMono_def hasMonotonic_def)

lemma epoch_v2:
  "UnmarshalBinary [CHR 0x02, CHR 0x00, CHR 0x00, CHR 0x00, CHR 0x0E, CHR 0x77, CHR 0x91, CHR 0xF7, CHR 0x00,
       CHR 0x00, CHR 0x00, CHR 0x00, CHR 0x00, z1, z2, z3]
    = Inr \<lparr>wall = 0, ext = 62135596800,
           loc = (if sint (u8 z2 OR push_bit 8 (u8 z1) :: 16 word) * 60 + of_char z3 = - 60 then UTC
                  else LocalOrFixed (sint (u8 z2 OR push_bit 8 (u8 z1) :: 16 word) * 60 + of_char z3))\<rparr>"
  by (simp add: UnmarshalBinary_def Let_def u8_def setLoc_def stripMono_def hasMonotonic_def)

lemma unix_epoch: "Unix \<lparr>wall = 0, ext = 62135596800, loc = l\<rparr> = 0"
  by (simp add: Unix_def sec_def internalToUnix_def)

text \<open>
  Claim C9. Decoding fails with a decode error for every input whose length differs
  from the length of the binary time encoding (15 bytes, 16 for version 2); on an
  encoding of the instant zero of the Unix epoch, in either version and with any zone,
  it returns the Unix seconds 0; and whenever it succeeds, the formatted text, the Unix
  seconds and the ISO-8601 text are all taken from the one decoded time.
\<close>

theorem decodeTimestamp_length_epoch_views:
  "(length data \<noteq> (if take 1 data = [CHR 0x02] then 16 else 15) \<longrightarrow>
      (\<exists>msg. decodeTimestamp data = Inl (FailedToDecodeTimestamp msg)))
   \<and> (\<exists>r. decodeTimestamp
            [CHR 0x01, CHR 0x00, CHR 0x00, CHR 0x00, CHR 0x0E, CHR 0x77, CHR 0x91, CHR 0xF7, CHR 0x00,
             CHR 0x00, CHR 0x00, CHR 0x00, CHR 0x00, z1, z2] = Inr r \<and> timestamp r = 0)
   \<and> (\<exists>r. decodeTimestamp
            [CHR 0x02, CHR 0x00, CHR 0x00, CHR 0x00, CHR 0x0E, CHR 0x77, CHR 0x91, CHR 0xF7, CHR 0x00,
             CHR 0x00, CHR 0x00, CHR 0x00, CHR 0x00, z1, z2, z3] = Inr r \<and> timestamp r = 0)
   \<and> (decodeTimestamp data' = Inr r \<longrightarrow>
        (\<exists>t. UnmarshalBinary data' = Inr t
            \<and> decodedTime r = Format t ''2006-01-02 15:04:05 MST''
            \<and> timestamp r = Unix t
            \<and> iso r = Format t RFC3339))"
proof (intro conjI impI)
  assume "length data \<noteq> (if take 1 data = [CHR 0x02] then 16 else 15)"
  from UnmarshalBinary_wrong_length [OF this]
  show "\<exists>msg. decodeTimestamp data = Inl (FailedToDecodeTimestamp msg)"
    by (auto simp: decodeTimestamp_def)
next
  show "\<exists>r. decodeTimestamp
            [CHR 0x01, CHR 0x00, CHR 0x00, CHR 0x00, CHR 0x0E, CHR 0x77, CHR 0x91, CHR 0xF7, CHR 0x00,
             CHR 0x00, CHR 0x00, CHR 0x00, CHR 0x00, z1, z2] = Inr r \<and> timestamp r = 0"
    by (simp add: decodeTimestamp_def epoch_v1 unix_epoch)
next
  show "\<exists>r. decodeTimestamp
            [CHR 0x02, CHR 0x00, CHR 0x00, CHR 0x00, CHR 0x0E, CHR 0x77, CHR 0x91, CHR 0xF7, CHR 0x00,
             CHR 0x00, CHR 0x00, CHR 0x00, CHR 0x00, z1, z2, z3] = Inr r \<and> timestamp r = 0"
    by (simp add: decodeTimestamp_def epoch_v2 unix_epoch)
next
  assume "decodeTimestamp data' = Inr r"
  then show "\<exists>t. UnmarshalBinary data' = Inr t
            \<and> decodedTime r = Format t ''2006-01-02 15:04:05 MST''
            \<and> timestamp r = Unix t
            \<and> iso r = Format t RFC3339"
    by (auto simp: decodeTimestamp_def split: sum.splits)
qed

text \<open>
  The theorem at a three-byte input, which fails, and at the encoding of the epoch in
  UTC (version 1, zone offset -1), which succeeds.
\<close>

theorem decodeTimestamp_length_epoch_views_witness:
  "length ''abc'' \<noteq> (if take 1 ''abc'' = [CHR 0x02] then 16 else 15)
   \<and> (\<exists>msg. decodeTimestamp ''abc'' = Inl (FailedToDecodeTimestamp msg))
   \<and> decodeTimestamp
        [CHR 0x01, CHR 0x00, CHR 0x00, CHR 0x00, CHR 0x0E, CHR 0x77, CHR 0x91, CHR 0xF7, CHR 0x00,
         CHR 0x00, CHR 0x00, CHR 0x00, CHR 0x00, CHR 0xFF, CHR 0xFF]
       = Inr \<lparr>decodedTime = Format \<lparr>wall = 0, ext = 62135596800, loc = UTC\<rparr> ''2006-01-02 15:04:05 MST'',
              timestamp = 0,
              iso = Format \<lparr>wall = 0, ext = 62135596800, loc = UTC\<rparr> RFC3339\<rparr>
   \<and> (\<exists>t. UnmarshalBinary
             [CHR 0x01, CHR 0x00, CHR 0x00, CHR 0x00, CHR 0x0E, CHR 0x77, CHR 0x91, CHR 0xF7, CHR 0x00,
              CHR 0x00, CHR 0x00, CHR 0x00, CHR 0x00, CHR 0xFF, CHR 0xFF] = Inr t
          \<and> Format \<lparr>wall = 0, ext = 62135596800, loc = UTC\<rparr> ''2006-01-02 15:04:05 MST''
               = Format t ''2006-01-02 15:04:05 MST''
          \<and> (0 :: int) = Unix t)"
proof -
  let ?enc = "[CHR 0x01, CHR 0x00, CHR 0x00, CHR 0x00, CHR 0x0E, CHR 0x77, CHR 0x91, CHR 0xF7, CHR 0x00,
         CHR 0x00, CHR 0x00, CHR 0x00, CHR 0x00, CHR 0xFF, CHR 0xFF]"
  let ?t = "\<lparr>wall = 0, ext = 62135596800, loc = UTC\<rparr>"
  let ?r = "\<lparr>decodedTime = Format ?t ''2006-01-02 15:04:05 MST'', timestamp = 0,
             iso = Format ?t RFC3339\<rparr>"
  have a: "length ''abc'' \<noteq> (if take 1 ''abc'' = [CHR 0x02] then 16 else 15)" by simp
  have u: "UnmarshalBinary ?enc = Inr ?t"
    by (simp add: epoch_v1 u8_def)
  have d: "decodeTimestamp ?enc = Inr ?r"
    by (simp add: decodeTimestamp_def u unix_epoch)
  from decodeTimestamp_length_epoch_views [of "''abc''" _ _ _ ?enc ?r] a d
  show ?thesis by auto
qed

end
